theory Spec2Isabelle
  imports Complex_Main "HOL-Library.Multiset" "HOL-Library.Sublist"
begin

section \<open>JavaScript values reaching the server functions\<close>

text \<open>
  The server functions take \<^verbatim>\<open>request: any\<close>. A value is one of the JavaScript kinds
  below. A string is a list of code units; \<^typ>\<open>char\<close> stands for a code unit below 256.
  An object is the list of its own properties, each key once.
\<close>

datatype jsval =
    JUndefined
  | JNull
  | JBool bool
  | JNum rat
  | JNaN
  | JInfinity bool
  | JStr string
  | JArr "jsval list"
  | JObj "(string \<times> jsval) list"

text \<open>Modelled from the spec: the class \<^verbatim>\<open>InvalidInputError\<close> of lib/errors/inputExceptions,
  the \<^verbatim>\<open>InputException\<close> that the spec calls InvalidInput and that is surfaced as a client
  error; it carries the string it is constructed with.\<close>

text \<open>The other errors: a TypeError is a property read on null or undefined, a
  ValidationError the schema check of \<^verbatim>\<open>save()\<close>, a CastError an identifier that
  Mongoose cannot cast to an ObjectId, a StoreError anything raised by \<^verbatim>\<open>connectDB()\<close> or
  by the store while it serves a call.\<close>

datatype error =
    InvalidInputError string
  | TypeError
  | ValidationError
  | CastError
  | StoreError

text \<open>\<^verbatim>\<open>!v\<close> is true exactly for the falsy values.\<close>

fun falsy :: "jsval \<Rightarrow> bool" where
  "falsy JUndefined = True"
| "falsy JNull = True"
| "falsy (JBool b) = (\<not> b)"
| "falsy (JNum q) = (q = 0)"
| "falsy JNaN = True"
| "falsy (JInfinity _) = False"
| "falsy (JStr s) = (s = [])"
| "falsy (JArr _) = False"
| "falsy (JObj _) = False"

text \<open>
  Reading one of the properties \<^verbatim>\<open>updates\<close>, \<^verbatim>\<open>ids\<close>, \<^verbatim>\<open>id\<close>, \<^verbatim>\<open>status\<close>,
  \<^verbatim>\<open>requestorName\<close>, \<^verbatim>\<open>itemRequested\<close>: a TypeError on null and undefined, the own
  property of an object, undefined on everything else (no prototype defines them).
\<close>

fun get_prop :: "jsval \<Rightarrow> string \<Rightarrow> error + jsval" where
  "get_prop JUndefined k = Inl TypeError"
| "get_prop JNull k = Inl TypeError"
| "get_prop (JObj kvs) k = (case map_of kvs k of None \<Rightarrow> Inr JUndefined | Some v \<Rightarrow> Inr v)"
| "get_prop v k = Inr JUndefined"

text \<open>The code units below 256 that \<^verbatim>\<open>String.prototype.trim\<close> strips:
  TAB, LF, VT, FF, CR, SP and NBSP.\<close>

definition is_js_whitespace :: "char \<Rightarrow> bool" where
  "is_js_whitespace c = (of_char c \<in> {9, 10, 11, 12, 13, 32, 160 :: nat})"

definition trim :: "string \<Rightarrow> string" where
  "trim s = rev (dropWhile is_js_whitespace (rev (dropWhile is_js_whitespace s)))"

section \<open>Validation (lib/validation/requests.ts)\<close>

record CreateItemRequest =
  cr_requestorName :: string
  cr_itemRequested :: string

record EditStatusRequest =
  es_id :: string
  es_status :: string

text \<open>Modelled from the spec: the enum \<^verbatim>\<open>RequestStatus\<close> of lib/types/request, whose
  four values are the lowercase strings pending, approved, completed, rejected.\<close>

definition PENDING :: string where "PENDING = ''pending''"
definition APPROVED :: string where "APPROVED = ''approved''"
definition COMPLETED :: string where "COMPLETED = ''completed''"
definition REJECTED :: string where "REJECTED = ''rejected''"

definition RequestStatus_values :: "string list" where
  "RequestStatus_values = [PENDING, APPROVED, COMPLETED, REJECTED]"

text \<open>\<^verbatim>\<open>lower && str.length < lower\<close>: an absent or zero bound never rejects.\<close>

definition isValidString :: "jsval \<Rightarrow> nat option \<Rightarrow> nat option \<Rightarrow> bool" where
  "isValidString str lower upper =
     (case str of
        JStr s \<Rightarrow>
          if trim s = [] then False
          else if (case lower of None \<Rightarrow> False | Some l \<Rightarrow> l \<noteq> 0 \<and> length s < l)
                \<or> (case upper of None \<Rightarrow> False | Some u \<Rightarrow> u \<noteq> 0 \<and> length s > u)
          then False
          else True
      | _ \<Rightarrow> False)"

definition isValidName :: "jsval \<Rightarrow> bool" where
  "isValidName name = isValidString name (Some 3) (Some 30)"

definition isValidItemRequested :: "jsval \<Rightarrow> bool" where
  "isValidItemRequested item = isValidString item (Some 2) (Some 100)"

text \<open>\<^verbatim>\<open>v.trim()\<close>, called only where \<^verbatim>\<open>v\<close> has been checked to be a string.\<close>

fun trim_of :: "jsval \<Rightarrow> string" where
  "trim_of (JStr s) = trim s"
| "trim_of _ = []"

text \<open>The validators return \<^verbatim>\<open>null\<close> (here \<open>Inr None\<close>) on invalid input; a property
  read on null or undefined throws (here \<open>Inl TypeError\<close>).\<close>

definition validateCreateItemRequest :: "jsval \<Rightarrow> error + CreateItemRequest option" where
  "validateCreateItemRequest request =
     (case get_prop request ''requestorName'' of
        Inl e \<Rightarrow> Inl e
      | Inr name \<Rightarrow>
          if falsy name then Inr None
          else (case get_prop request ''itemRequested'' of
                  Inl e \<Rightarrow> Inl e
                | Inr item \<Rightarrow>
                    if falsy item then Inr None
                    else if \<not> isValidName name \<or> \<not> isValidItemRequested item then Inr None
                    else Inr (Some \<lparr>cr_requestorName = trim_of name,
                                    cr_itemRequested = trim_of item\<rparr>)))"

definition isValidStatus :: "jsval \<Rightarrow> bool" where
  "isValidStatus status = (case status of JStr s \<Rightarrow> s \<in> set RequestStatus_values | _ \<Rightarrow> False)"

fun str_of :: "jsval \<Rightarrow> string" where
  "str_of (JStr s) = s"
| "str_of _ = []"

definition validateEditStatusRequest :: "jsval \<Rightarrow> error + EditStatusRequest option" where
  "validateEditStatusRequest request =
     (case get_prop request ''id'' of
        Inl e \<Rightarrow> Inl e
      | Inr i \<Rightarrow>
          if falsy i then Inr None
          else (case get_prop request ''status'' of
                  Inl e \<Rightarrow> Inl e
                | Inr st \<Rightarrow>
                    if falsy st then Inr None
                    else if (case i of JStr s \<Rightarrow> trim s = [] | _ \<Rightarrow> True) then Inr None
                    else if \<not> isValidStatus st then Inr None
                    else Inr (Some \<lparr>es_id = trim_of i, es_status = str_of st\<rparr>)))"

text \<open>The loop of \<^verbatim>\<open>validateBatchEditStatusRequest\<close>: the first invalid update
  returns \<^verbatim>\<open>null\<close> for the whole batch.\<close>

fun validate_updates :: "jsval list \<Rightarrow> EditStatusRequest list \<Rightarrow> error + EditStatusRequest list option" where
  "validate_updates [] validatedUpdates = Inr (Some validatedUpdates)"
| "validate_updates (update # rest) validatedUpdates =
     (case validateEditStatusRequest update of
        Inl e \<Rightarrow> Inl e
      | Inr None \<Rightarrow> Inr None
      | Inr (Some validatedUpdate) \<Rightarrow> validate_updates rest (validatedUpdates @ [validatedUpdate]))"

definition validateBatchEditStatusRequest :: "jsval \<Rightarrow> error + EditStatusRequest list option" where
  "validateBatchEditStatusRequest request =
     (case get_prop request ''updates'' of
        Inl e \<Rightarrow> Inl e
      | Inr (JArr updates) \<Rightarrow>
          if updates = [] then Inr None else validate_updates updates []
      | Inr _ \<Rightarrow> Inr None)"

fun validate_ids :: "jsval list \<Rightarrow> string list \<Rightarrow> string list option" where
  "validate_ids [] validatedIds = Some validatedIds"
| "validate_ids (JStr s # rest) validatedIds =
     (if trim s = [] then None else validate_ids rest (validatedIds @ [trim s]))"
| "validate_ids (_ # rest) validatedIds = None"

definition validateBatchDeleteRequest :: "jsval \<Rightarrow> error + string list option" where
  "validateBatchDeleteRequest request =
     (case get_prop request ''ids'' of
        Inl e \<Rightarrow> Inl e
      | Inr (JArr ids) \<Rightarrow>
          if ids = [] then Inr None else Inr (validate_ids ids [])
      | Inr _ \<Rightarrow> Inr None)"

section \<open>The record store (server/models/request.model.ts)\<close>

text \<open>
  A stored document (\<^verbatim>\<open>IRequest\<close>, with the string form of its \<^verbatim>\<open>_id\<close> in \<open>oid\<close>) and
  the snapshot returned to callers (\<^verbatim>\<open>ItemRequest\<close>) share five fields. Dates are
  milliseconds since the epoch. The collection is the list of its documents in
  insertion order.
\<close>

record request_fields =
  requestorName :: string
  itemRequested :: string
  requestCreatedDate :: int
  lastEditedDate :: "int option"
  status :: string

record IRequest = request_fields +
  oid :: string

record ItemRequest = request_fields +
  item_id :: string

text \<open>
  What lies outside the program: whether \<^verbatim>\<open>connectDB()\<close> rejects, and whether the store
  raises while it serves the \<open>n\<close>-th call of the running function (a lost connection, a
  timeout).
\<close>

record db_env =
  connect_fails :: bool
  raises :: "nat \<Rightarrow> bool"

definition connectDB :: "db_env \<Rightarrow> error + unit" where
  "connectDB env = (if connect_fails env then Inl StoreError else Inr ())"

text \<open>
  Mongoose casts the identifier it is given to an ObjectId before it asks the store. A
  string is an ObjectId exactly when it has 24 hexadecimal digits, read without regard
  to case; on any other string the call throws a CastError. The string form of an
  ObjectId, as \<^verbatim>\<open>_id.toString()\<close> gives it, is the 24 digits in lower case; \<open>oid\<close> of a
  document holds that string.
\<close>

definition is_hex_digit :: "char \<Rightarrow> bool" where
  "is_hex_digit c = (c \<in> set ''0123456789abcdefABCDEF'')"

definition lower_hex :: "char \<Rightarrow> char" where
  "lower_hex c =
     (case map_of [(CHR ''A'', CHR ''a''), (CHR ''B'', CHR ''b''), (CHR ''C'', CHR ''c''),
                   (CHR ''D'', CHR ''d''), (CHR ''E'', CHR ''e''), (CHR ''F'', CHR ''f'')] c of
        None \<Rightarrow> c
      | Some l \<Rightarrow> l)"

definition castObjectId :: "string \<Rightarrow> string option" where
  "castObjectId s =
     (if length s = 24 \<and> list_all is_hex_digit s then Some (map lower_hex s) else None)"

text \<open>The collection's own operations, on an ObjectId already cast: the document with
  that \<^verbatim>\<open>_id\<close>; its update in place, returning the document after the update
  (\<^verbatim>\<open>{new: true}\<close>) or \<^verbatim>\<open>null\<close>; its removal, returning the removed document or
  \<^verbatim>\<open>null\<close>.\<close>

definition findOne :: "string \<Rightarrow> IRequest list \<Rightarrow> IRequest option" where
  "findOne c ds = find (\<lambda>d. oid d = c) ds"

fun findOneAndUpdate :: "string \<Rightarrow> string \<Rightarrow> int \<Rightarrow> IRequest list \<Rightarrow> IRequest option \<times> IRequest list" where
  "findOneAndUpdate c s t [] = (None, [])"
| "findOneAndUpdate c s t (d # ds) =
     (if oid d = c
      then (Some (d\<lparr>status := s, lastEditedDate := Some t\<rparr>),
            d\<lparr>status := s, lastEditedDate := Some t\<rparr> # ds)
      else (case findOneAndUpdate c s t ds of (r, ds') \<Rightarrow> (r, d # ds')))"

fun findOneAndDelete :: "string \<Rightarrow> IRequest list \<Rightarrow> IRequest option \<times> IRequest list" where
  "findOneAndDelete c [] = (None, [])"
| "findOneAndDelete c (d # ds) =
     (if oid d = c then (Some d, ds)
      else (case findOneAndDelete c ds of (r, ds') \<Rightarrow> (r, d # ds')))"

text \<open>\<^verbatim>\<open>findByIdAndUpdate(id, {status, lastEditedDate}, {new: true}).exec()\<close> and
  \<^verbatim>\<open>findByIdAndDelete(id).exec()\<close>: the cast of the identifier, then the store call,
  which raises when \<open>raise\<close> says so.\<close>

definition findByIdAndUpdate :: "bool \<Rightarrow> string \<Rightarrow> string \<Rightarrow> int \<Rightarrow> IRequest list
    \<Rightarrow> error + IRequest option \<times> IRequest list" where
  "findByIdAndUpdate raise i s t ds =
     (case castObjectId i of
        None \<Rightarrow> Inl CastError
      | Some c \<Rightarrow> if raise then Inl StoreError else Inr (findOneAndUpdate c s t ds))"

definition findByIdAndDelete :: "bool \<Rightarrow> string \<Rightarrow> IRequest list
    \<Rightarrow> error + IRequest option \<times> IRequest list" where
  "findByIdAndDelete raise i ds =
     (case castObjectId i of
        None \<Rightarrow> Inl CastError
      | Some c \<Rightarrow> if raise then Inl StoreError else Inr (findOneAndDelete c ds))"

text \<open>\<^verbatim>\<open>new RequestModel({...})\<close>: the schema's \<^verbatim>\<open>trim: true\<close> setters run on assignment.\<close>

definition new_RequestModel :: "string \<Rightarrow> string \<Rightarrow> string \<Rightarrow> int \<Rightarrow> int option \<Rightarrow> string \<Rightarrow> IRequest" where
  "new_RequestModel new_oid name item created edited st =
     \<lparr>requestorName = trim name, itemRequested = trim item, requestCreatedDate = created,
      lastEditedDate = edited, status = st, oid = new_oid\<rparr>"

text \<open>The validators of \<^verbatim>\<open>RequestSchema\<close>, run by \<^verbatim>\<open>save()\<close>: required, minlength,
  maxlength, enum.\<close>

definition schema_valid :: "IRequest \<Rightarrow> bool" where
  "schema_valid d =
     (requestorName d \<noteq> [] \<and> 3 \<le> length (requestorName d) \<and> length (requestorName d) \<le> 30
      \<and> itemRequested d \<noteq> [] \<and> 2 \<le> length (itemRequested d) \<and> length (itemRequested d) \<le> 100
      \<and> status d \<in> set RequestStatus_values)"

text \<open>\<^verbatim>\<open>doc.save()\<close>: a ValidationError when a validator fails; otherwise the insert,
  which raises when the store call does or when the identifier is already taken.\<close>

definition save :: "db_env \<Rightarrow> IRequest \<Rightarrow> IRequest list \<Rightarrow> error + IRequest \<times> IRequest list" where
  "save env d ds =
     (if \<not> schema_valid d then Inl ValidationError
      else if raises env 0 \<or> findOne (oid d) ds \<noteq> None then Inl StoreError
      else Inr (d, ds @ [d]))"

section \<open>The server functions (server/requests.ts)\<close>

definition transform :: "IRequest \<Rightarrow> ItemRequest" where
  "transform d =
     \<lparr>requestorName = requestorName d, itemRequested = itemRequested d,
      requestCreatedDate = requestCreatedDate d, lastEditedDate = lastEditedDate d,
      status = status d, item_id = oid d\<rparr>"

text \<open>
  Each function takes the environment, the value of \<^verbatim>\<open>new Date()\<close> and the collection,
  and returns the thrown error or the result together with the collection afterwards.
  \<open>new_oid\<close> is the identifier the driver generates for a new document.
\<close>

definition createNewRequest :: "db_env \<Rightarrow> string \<Rightarrow> int \<Rightarrow> IRequest list \<Rightarrow> jsval \<Rightarrow> (error + ItemRequest) \<times> IRequest list" where
  "createNewRequest env new_oid currentDate ds request =
     (case validateCreateItemRequest request of
        Inl e \<Rightarrow> (Inl e, ds)
      | Inr None \<Rightarrow> (Inl (InvalidInputError ''created item request''), ds)
      | Inr (Some validatedRequest) \<Rightarrow>
          (case connectDB env of
             Inl e \<Rightarrow> (Inl e, ds)
           | Inr _ \<Rightarrow>
               (case save env (new_RequestModel new_oid (cr_requestorName validatedRequest)
                                 (cr_itemRequested validatedRequest) currentDate (Some currentDate) PENDING) ds of
                  Inl e \<Rightarrow> (Inl e, ds)
                | Inr (savedRequest, ds') \<Rightarrow> (Inr (transform savedRequest), ds'))))"

definition updateRequestStatus :: "db_env \<Rightarrow> int \<Rightarrow> IRequest list \<Rightarrow> jsval \<Rightarrow> (error + ItemRequest) \<times> IRequest list" where
  "updateRequestStatus env currentDate ds request =
     (case validateEditStatusRequest request of
        Inl e \<Rightarrow> (Inl e, ds)
      | Inr None \<Rightarrow> (Inl (InvalidInputError ''edit item request''), ds)
      | Inr (Some validatedRequest) \<Rightarrow>
          (case connectDB env of
             Inl e \<Rightarrow> (Inl e, ds)
           | Inr _ \<Rightarrow>
               (case findByIdAndUpdate (raises env 0) (es_id validatedRequest)
                       (es_status validatedRequest) currentDate ds of
                  Inl e \<Rightarrow> (Inl e, ds)
                | Inr (None, ds') \<Rightarrow> (Inl (InvalidInputError ''edit item ID''), ds')
                | Inr (Some updatedRequest, ds') \<Rightarrow> (Inr (transform updatedRequest), ds'))))"

record batch_update_result =
  updated :: "ItemRequest list"
  failed :: "string list"

text \<open>The \<^verbatim>\<open>for ... of\<close> loop of \<^verbatim>\<open>batchUpdateRequestStatuses\<close>; \<open>f 0\<close> says whether the
  store raises on the call of the current item. The \<^verbatim>\<open>catch\<close> turns every error of the
  call into a failed entry.\<close>

fun update_loop :: "(nat \<Rightarrow> bool) \<Rightarrow> int \<Rightarrow> EditStatusRequest list \<Rightarrow> IRequest list
    \<Rightarrow> ItemRequest list \<Rightarrow> string list \<Rightarrow> batch_update_result \<times> IRequest list" where
  "update_loop f currentDate [] ds upd fl = (\<lparr>updated = upd, failed = fl\<rparr>, ds)"
| "update_loop f currentDate (update # rest) ds upd fl =
     (case findByIdAndUpdate (f 0) (es_id update) (es_status update) currentDate ds of
        Inl error \<Rightarrow>
          update_loop (\<lambda>n. f (Suc n)) currentDate rest ds upd (fl @ [es_id update])
      | Inr (None, ds') \<Rightarrow>
          update_loop (\<lambda>n. f (Suc n)) currentDate rest ds' upd (fl @ [es_id update])
      | Inr (Some updatedRequest, ds') \<Rightarrow>
          update_loop (\<lambda>n. f (Suc n)) currentDate rest ds' (upd @ [transform updatedRequest]) fl)"

definition batchUpdateRequestStatuses :: "db_env \<Rightarrow> int \<Rightarrow> IRequest list \<Rightarrow> jsval
    \<Rightarrow> (error + batch_update_result) \<times> IRequest list" where
  "batchUpdateRequestStatuses env currentDate ds request =
     (case validateBatchEditStatusRequest request of
        Inl e \<Rightarrow> (Inl e, ds)
      | Inr None \<Rightarrow> (Inl (InvalidInputError ''batch edit item request''), ds)
      | Inr (Some updates) \<Rightarrow>
          (case connectDB env of
             Inl e \<Rightarrow> (Inl e, ds)
           | Inr _ \<Rightarrow>
               (case update_loop (raises env) currentDate updates ds [] [] of
                  (r, ds') \<Rightarrow> (Inr r, ds'))))"

record batch_delete_result =
  deletedCount :: nat
  failed_ids :: "string list"

fun delete_loop :: "(nat \<Rightarrow> bool) \<Rightarrow> string list \<Rightarrow> IRequest list \<Rightarrow> nat \<Rightarrow> string list
    \<Rightarrow> batch_delete_result \<times> IRequest list" where
  "delete_loop f [] ds cnt fl = (\<lparr>deletedCount = cnt, failed_ids = fl\<rparr>, ds)"
| "delete_loop f (i # rest) ds cnt fl =
     (case findByIdAndDelete (f 0) i ds of
        Inl error \<Rightarrow> delete_loop (\<lambda>n. f (Suc n)) rest ds cnt (fl @ [i])
      | Inr (None, ds') \<Rightarrow> delete_loop (\<lambda>n. f (Suc n)) rest ds' cnt (fl @ [i])
      | Inr (Some result, ds') \<Rightarrow> delete_loop (\<lambda>n. f (Suc n)) rest ds' (Suc cnt) fl)"

definition batchDeleteRequests :: "db_env \<Rightarrow> IRequest list \<Rightarrow> jsval
    \<Rightarrow> (error + batch_delete_result) \<times> IRequest list" where
  "batchDeleteRequests env ds request =
     (case validateBatchDeleteRequest request of
        Inl e \<Rightarrow> (Inl e, ds)
      | Inr None \<Rightarrow> (Inl (InvalidInputError ''batch delete request''), ds)
      | Inr (Some ids) \<Rightarrow>
          (case connectDB env of
             Inl e \<Rightarrow> (Inl e, ds)
           | Inr _ \<Rightarrow>
               (case delete_loop (raises env) ids ds 0 [] of
                  (r, ds') \<Rightarrow> (Inr r, ds'))))"

record item_requests_page =
  requests :: "ItemRequest list"
  totalCount :: nat

text \<open>The query filter: \<^verbatim>\<open>if (status) filter.status = status\<close>.\<close>

definition matches :: "string option \<Rightarrow> IRequest \<Rightarrow> bool" where
  "matches st d = (case st of None \<Rightarrow> True | Some s \<Rightarrow> s = [] \<or> status d = s)"

text \<open>\<^verbatim>\<open>.limit(n)\<close>: a limit of 0 is no limit.\<close>

definition limit :: "nat \<Rightarrow> 'a list \<Rightarrow> 'a list" where
  "limit n xs = (if n = 0 then xs else take n xs)"

text \<open>
  \<^verbatim>\<open>getItemRequests(page, status)\<close> for an integer page, with the page size
  \<^verbatim>\<open>PAGINATION_PAGE_SIZE\<close> of lib/constants/config as the parameter \<open>page_size\<close>.
  The store rejects a negative skip. The sort on \<^verbatim>\<open>requestCreatedDate: -1\<close> is taken
  stable.
\<close>

definition getItemRequests :: "db_env \<Rightarrow> nat \<Rightarrow> IRequest list \<Rightarrow> int \<Rightarrow> string option
    \<Rightarrow> error + item_requests_page" where
  "getItemRequests env page_size ds page st =
     (case connectDB env of
        Inl e \<Rightarrow> Inl e
      | Inr _ \<Rightarrow>
          (let skip = (page - 1) * int page_size in
           if raises env 0 then Inl StoreError
           else if raises env 1 \<or> skip < 0 then Inl StoreError
           else Inr \<lparr>requests =
                       map transform
                         (limit page_size (drop (nat skip)
                            (sort_key (\<lambda>d. - requestCreatedDate d) (filter (matches st) ds)))),
                     totalCount = length (filter (matches st) ds)\<rparr>))"

text \<open>The \<^verbatim>\<open>catch\<close> of the route handlers: an \<^verbatim>\<open>InputException\<close> becomes the invalid-input
  response, anything else the unknown-error response.\<close>

datatype ResponseType = INVALID_INPUT | UNKNOWN_ERROR

fun catch_response :: "error \<Rightarrow> ResponseType" where
  "catch_response (InvalidInputError _) = INVALID_INPUT"
| "catch_response _ = UNKNOWN_ERROR"

section \<open>Vocabulary of the statements\<close>

text \<open>The identifier and the status a caller supplied in one pair of a batch.\<close>

definition raw_id :: "jsval \<Rightarrow> string" where
  "raw_id u = (case get_prop u ''id'' of Inr (JStr s) \<Rightarrow> s | _ \<Rightarrow> [])"

definition raw_status :: "jsval \<Rightarrow> string" where
  "raw_status u = (case get_prop u ''status'' of Inr (JStr s) \<Rightarrow> s | _ \<Rightarrow> [])"

text \<open>A pair passes shape and type validation: its id is a string that is not blank
  after trimming, and its status is one of the four enum values.\<close>

definition pair_ok :: "jsval \<Rightarrow> bool" where
  "pair_ok u =
     ((case get_prop u ''id'' of Inr (JStr s) \<Rightarrow> trim s \<noteq> [] | _ \<Rightarrow> False)
      \<and> (case get_prop u ''status'' of Inr (JStr t) \<Rightarrow> t \<in> set RequestStatus_values | _ \<Rightarrow> False))"

definition validated :: "jsval \<Rightarrow> EditStatusRequest" where
  "validated u = \<lparr>es_id = trim (raw_id u), es_status = raw_status u\<rparr>"

text \<open>The updates list of a request, when it has one.\<close>

definition updates_of :: "jsval \<Rightarrow> jsval list option" where
  "updates_of request = (case get_prop request ''updates'' of Inr (JArr us) \<Rightarrow> Some us | _ \<Rightarrow> None)"

text \<open>The updates list is absent, empty, or holds a pair that fails validation.\<close>

definition invalid_batch :: "jsval \<Rightarrow> bool" where
  "invalid_batch request =
     (case updates_of request of None \<Rightarrow> True | Some us \<Rightarrow> us = [] \<or> \<not> list_all pair_ok us)"

text \<open>Neither the request nor an entry of its updates list is null or undefined.\<close>

definition defined :: "jsval \<Rightarrow> bool" where
  "defined v = (v \<noteq> JUndefined \<and> v \<noteq> JNull)"

definition all_defined :: "jsval \<Rightarrow> bool" where
  "all_defined request =
     (defined request \<and> (case updates_of request of None \<Rightarrow> True | Some us \<Rightarrow> list_all defined us))"

text \<open>The effect of a status update on one document.\<close>

definition touch :: "string \<Rightarrow> int \<Rightarrow> IRequest \<Rightarrow> IRequest" where
  "touch s t d = d\<lparr>status := s, lastEditedDate := Some t\<rparr>"

text \<open>The record an identifier resolves to: the identifier is an ObjectId and a
  document has it as \<^verbatim>\<open>_id\<close>. The canonical form of an identifier is the string form of
  the ObjectId it casts to, and the identifier itself when it is none.\<close>

definition resolve :: "string \<Rightarrow> IRequest list \<Rightarrow> IRequest option" where
  "resolve i ds = (case castObjectId i of None \<Rightarrow> None | Some c \<Rightarrow> findOne c ds)"

definition canonical :: "string \<Rightarrow> string" where
  "canonical i = (case castObjectId i of None \<Rightarrow> i | Some c \<Rightarrow> c)"

text \<open>Item number \<open>i\<close> of a validated batch update fails: the store raises on its call,
  or its identifier resolves to no record.\<close>

definition update_fails :: "(nat \<Rightarrow> bool) \<Rightarrow> IRequest list \<Rightarrow> nat \<times> EditStatusRequest \<Rightarrow> bool" where
  "update_fails f ds iu = (f (fst iu) \<or> resolve (es_id (snd iu)) ds = None)"

text \<open>The snapshot of a record, field by field, and the snapshot a status update
  returns for it.\<close>

definition snapshot :: "IRequest \<Rightarrow> ItemRequest" where
  "snapshot d =
     \<lparr>requestorName = requestorName d, itemRequested = itemRequested d,
      requestCreatedDate = requestCreatedDate d, lastEditedDate = lastEditedDate d,
      status = status d, item_id = oid d\<rparr>"

definition snapshot_after :: "string \<Rightarrow> int \<Rightarrow> IRequest \<Rightarrow> ItemRequest" where
  "snapshot_after s t d =
     \<lparr>requestorName = requestorName d, itemRequested = itemRequested d,
      requestCreatedDate = requestCreatedDate d, lastEditedDate = Some t,
      status = s, item_id = oid d\<rparr>"

text \<open>An environment in which the connection is up and no store call raises.\<close>

definition no_faults :: db_env where
  "no_faults = \<lparr>connect_fails = False, raises = (\<lambda>n. False)\<rparr>"

definition pair :: "string \<Rightarrow> string \<Rightarrow> jsval" where
  "pair i s = JObj [(''id'', JStr i), (''status'', JStr s)]"

definition batch :: "jsval list \<Rightarrow> jsval" where
  "batch us = JObj [(''updates'', JArr us)]"

definition doc :: "string \<Rightarrow> int \<Rightarrow> string \<Rightarrow> IRequest" where
  "doc i created st =
     \<lparr>requestorName = ''Jane Doe'', itemRequested = ''Flashlights'', requestCreatedDate = created,
      lastEditedDate = Some created, status = st, oid = i\<rparr>"


text \<open>A collection of two records and a batch of three pairs: a known identifier, one
  that no record has, and a known one padded with spaces.\<close>

definition sample_store :: "IRequest list" where
  "sample_store =
     [doc ''507f1f77bcf86cd799439011'' 1 ''pending'',
      doc ''507f191e810c19729de860ea'' 2 ''pending'']"

definition sample_pairs :: "jsval list" where
  "sample_pairs =
     [pair ''507f1f77bcf86cd799439011'' ''approved'',
      pair ''507f191e810c19729de860eb'' ''rejected'',
      pair '' 507f191e810c19729de860ea '' ''completed'']"

definition sample_batch :: jsval where
  "sample_batch = batch sample_pairs"

definition sample_validated :: "EditStatusRequest list" where
  "sample_validated =
     [\<lparr>es_id = ''507f1f77bcf86cd799439011'', es_status = ''approved''\<rparr>,
      \<lparr>es_id = ''507f191e810c19729de860eb'', es_status = ''rejected''\<rparr>,
      \<lparr>es_id = ''507f191e810c19729de860ea'', es_status = ''completed''\<rparr>]"

definition sample_result :: batch_update_result where
  "sample_result =
     \<lparr>updated = [transform (touch ''approved'' 7 (doc ''507f1f77bcf86cd799439011'' 1 ''pending'')),
                 transform (touch ''completed'' 7 (doc ''507f191e810c19729de860ea'' 2 ''pending''))],
      failed = [''507f191e810c19729de860eb'']\<rparr>"

definition sample_store_after :: "IRequest list" where
  "sample_store_after =
     [touch ''approved'' 7 (doc ''507f1f77bcf86cd799439011'' 1 ''pending''),
      touch ''completed'' 7 (doc ''507f191e810c19729de860ea'' 2 ''pending'')]"

text \<open>A padded identifier alone; a known identifier written in upper case; one identifier
  named twice, with an environment in which the store raises on the second call only;
  and a batch with a null entry before a pair whose id is blank.\<close>

definition padded_batch :: jsval where
  "padded_batch = batch [pair '' 507f191e810c19729de860ea '' ''completed'']"

definition upper_batch :: jsval where
  "upper_batch = batch [pair ''507F1F77BCF86CD799439011'' ''approved'']"

definition twice_batch :: jsval where
  "twice_batch =
     batch [pair ''507f1f77bcf86cd799439011'' ''approved'',
            pair ''507f1f77bcf86cd799439011'' ''rejected'']"

definition second_call_raises :: db_env where
  "second_call_raises = \<lparr>connect_fails = False, raises = (\<lambda>n. n = 1)\<rparr>"

definition null_entry_batch :: jsval where
  "null_entry_batch =
     batch [pair ''507f1f77bcf86cd799439011'' ''approved'', JNull, pair ''   '' ''approved'']"

definition null_entry_delete :: jsval where
  "null_entry_delete = JObj [(''ids'', JArr [JStr ''507f1f77bcf86cd799439011'', JNull])]"

text \<open>The ids list of a batch delete request, when it has one, and what makes one of
  its entries valid: a string that is not blank after trimming.\<close>

definition ids_of :: "jsval \<Rightarrow> jsval list option" where
  "ids_of request = (case get_prop request ''ids'' of Inr (JArr ids) \<Rightarrow> Some ids | _ \<Rightarrow> None)"

definition id_ok :: "jsval \<Rightarrow> bool" where
  "id_ok v = (case v of JStr s \<Rightarrow> trim s \<noteq> [] | _ \<Rightarrow> False)"

definition delete_batch :: "string list \<Rightarrow> jsval" where
  "delete_batch ids = JObj [(''ids'', JArr (map JStr ids))]"

text \<open>Batch deletes over the sample collection: a known identifier and one that no
  record has; the known identifier again; and both padded with spaces.\<close>

definition delete_first :: jsval where
  "delete_first = delete_batch [''507f1f77bcf86cd799439011'', ''507f191e810c19729de860eb'']"

definition delete_again :: jsval where
  "delete_again = delete_batch [''507f1f77bcf86cd799439011'']"

definition padded_ids :: "jsval list" where
  "padded_ids = [JStr '' 507f1f77bcf86cd799439011 '', JStr '' 507f191e810c19729de860eb'']"

definition delete_padded :: jsval where
  "delete_padded = JObj [(''ids'', JArr padded_ids)]"

text \<open>The known identifier written in upper case, alone and followed by its lower-case
  form.\<close>

definition delete_upper :: jsval where
  "delete_upper = delete_batch [''507F1F77BCF86CD799439011'']"

definition delete_either_case :: jsval where
  "delete_either_case = delete_batch [''507F1F77BCF86CD799439011'', ''507f1f77bcf86cd799439011'']"

definition store_after_delete :: "IRequest list" where
  "store_after_delete = [doc ''507f191e810c19729de860ea'' 2 ''pending'']"

text \<open>A creation request with the two fields, and a collection of three records created
  at different times, for the paging examples.\<close>

definition creation :: "string \<Rightarrow> string \<Rightarrow> jsval" where
  "creation name item = JObj [(''requestorName'', JStr name), (''itemRequested'', JStr item)]"

definition paging_store :: "IRequest list" where
  "paging_store =
     [doc ''507f1f77bcf86cd799439011'' 1 ''pending'',
      doc ''507f191e810c19729de860ea'' 3 ''approved'',
      doc ''65a1b2c3d4e5f60718293a4b'' 2 ''pending'']"

section \<open>Validation lemmas\<close>

lemma get_prop_defined: "defined v \<Longrightarrow> \<exists>w. get_prop v k = Inr w"
  by (cases v) (auto simp: defined_def split: option.splits)

lemma get_prop_undefined: "\<not> defined v \<Longrightarrow> get_prop v k = Inl TypeError"
  by (cases v) (auto simp: defined_def)

lemma trim_Nil [simp]: "trim [] = []"
  by (simp add: trim_def)

lemma validateEdit_ok:
  "pair_ok u \<Longrightarrow> validateEditStatusRequest u = Inr (Some (validated u))"
  by (auto simp: pair_ok_def validateEditStatusRequest_def validated_def raw_id_def raw_status_def
      isValidStatus_def RequestStatus_values_def PENDING_def APPROVED_def COMPLETED_def REJECTED_def
      split: sum.splits jsval.splits)

lemma validateEdit_bad:
  "\<not> pair_ok u \<Longrightarrow> defined u \<Longrightarrow> validateEditStatusRequest u = Inr None"
  using get_prop_defined[of u "''id''"] get_prop_defined[of u "''status''"]
  by (auto simp: pair_ok_def validateEditStatusRequest_def isValidStatus_def
      split: sum.splits jsval.splits)

lemma validateEdit_Some:
  "validateEditStatusRequest u = Inr (Some v) \<Longrightarrow> pair_ok u"
  by (auto simp: pair_ok_def validateEditStatusRequest_def isValidStatus_def
      split: sum.splits jsval.splits if_splits)

lemma validate_updates_ok:
  "list_all pair_ok us \<Longrightarrow> validate_updates us acc = Inr (Some (acc @ map validated us))"
  by (induction us arbitrary: acc) (simp_all add: validateEdit_ok)

lemma validate_updates_Some:
  "validate_updates us acc = Inr (Some vs) \<Longrightarrow> list_all pair_ok us"
  by (induction us arbitrary: acc) (auto split: sum.splits option.splits dest: validateEdit_Some)

lemma validate_updates_bad:
  "\<not> list_all pair_ok us \<Longrightarrow> list_all defined us \<Longrightarrow> validate_updates us acc = Inr None"
proof (induction us arbitrary: acc)
  case Nil
  then show ?case by simp
next
  case (Cons u us)
  show ?case
  proof (cases "pair_ok u")
    case True
    with Cons show ?thesis by (simp add: validateEdit_ok)
  next
    case False
    with Cons.prems show ?thesis by (simp add: validateEdit_bad)
  qed
qed

lemma validateBatch_ok:
  "updates_of request = Some us \<Longrightarrow> us \<noteq> [] \<Longrightarrow> list_all pair_ok us
   \<Longrightarrow> validateBatchEditStatusRequest request = Inr (Some (map validated us))"
  by (auto simp: updates_of_def validateBatchEditStatusRequest_def validate_updates_ok
      split: sum.splits jsval.splits)

lemma validateBatch_Some:
  "validateBatchEditStatusRequest request = Inr (Some vs) \<Longrightarrow> \<not> invalid_batch request"
  by (auto simp: updates_of_def validateBatchEditStatusRequest_def invalid_batch_def
      split: sum.splits jsval.splits if_splits dest: validate_updates_Some)

lemma validateBatch_bad:
  "invalid_batch request \<Longrightarrow> all_defined request \<Longrightarrow> validateBatchEditStatusRequest request = Inr None"
  using get_prop_defined[of request "''updates''"]
  by (auto simp: updates_of_def validateBatchEditStatusRequest_def invalid_batch_def all_defined_def
      validate_updates_bad split: sum.splits jsval.splits if_splits)

text \<open>Evaluation rules for concrete inputs.\<close>

lemmas eval_defs =
  trim_def is_js_whitespace_def pair_def batch_def doc_def no_faults_def connectDB_def
  RequestStatus_values_def PENDING_def APPROVED_def COMPLETED_def REJECTED_def
  pair_ok_def updates_of_def defined_def invalid_batch_def all_defined_def
  raw_id_def raw_status_def validated_def

section \<open>Rejection of malformed batches\<close>

lemma invalid_batch_rejected:
  assumes "invalid_batch request"
  shows "\<exists>e. batchUpdateRequestStatuses env currentDate ds request = (Inl e, ds)
           \<and> (all_defined request \<longrightarrow> e = InvalidInputError ''batch edit item request'')"
proof (cases "validateBatchEditStatusRequest request")
  case (Inl e)
  moreover have "\<not> all_defined request"
    using Inl validateBatch_bad[OF assms] by auto
  ultimately show ?thesis by (simp add: batchUpdateRequestStatuses_def)
next
  case (Inr r)
  with validateBatch_Some assms have "r = None" by (cases r) auto
  with Inr show ?thesis by (simp add: batchUpdateRequestStatuses_def)
qed

text \<open>
  C1 (the code at one input). In the batch of a valid pair, a null entry and a pair whose
  id is blank, a pair fails validation. \<open>batchUpdateRequestStatuses\<close> rejects the call
  before any store call and leaves the collection as it was, but the error is the
  TypeError of reading the id of the null entry, not an InvalidInputError, and the route
  handler answers it as an unknown error. The validator of the batch delete returns
  \<^verbatim>\<open>null\<close> on a null entry, and that call is rejected as invalid input.
\<close>

theorem batch_update_null_entry_type_error:
  "\<not> pair_ok (pair ''   '' ''approved'')
   \<and> batchUpdateRequestStatuses env currentDate ds null_entry_batch = (Inl TypeError, ds)
   \<and> catch_response TypeError = UNKNOWN_ERROR
   \<and> batchDeleteRequests env ds null_entry_delete
        = (Inl (InvalidInputError ''batch delete request''), ds)
   \<and> catch_response (InvalidInputError ''batch delete request'') = INVALID_INPUT"
  by (simp add: eval_defs null_entry_batch_def null_entry_delete_def batchUpdateRequestStatuses_def
      validateBatchEditStatusRequest_def validateEditStatusRequest_def isValidStatus_def
      batchDeleteRequests_def validateBatchDeleteRequest_def)

section \<open>Store lemmas\<close>

lemma touch_simps [simp]:
  "oid (touch s t d) = oid d" "status (touch s t d) = s" "lastEditedDate (touch s t d) = Some t"
  "requestCreatedDate (touch s t d) = requestCreatedDate d"
  by (simp_all add: touch_def)

lemma findOne_None_iff: "findOne i ds = None \<longleftrightarrow> i \<notin> oid ` set ds"
  by (auto simp: findOne_def find_None_iff)

lemma fst_findOneAndUpdate:
  "fst (findOneAndUpdate i s t ds) = map_option (touch s t) (findOne i ds)"
  by (induction ds) (auto simp: findOne_def touch_def[symmetric] split: prod.splits)

lemma findOne_findOneAndUpdate:
  "findOne x (snd (findOneAndUpdate i s t ds)) =
     (if x = i then map_option (touch s t) (findOne x ds) else findOne x ds)"
  by (induction ds) (auto simp: findOne_def touch_def[symmetric] split: prod.splits)

lemma findOneAndUpdate_None:
  "findOneAndUpdate i s t ds = (None, ds') \<Longrightarrow> ds' = ds \<and> findOne i ds = None"
  by (induction ds arbitrary: ds') (auto simp: findOne_def split: prod.splits if_splits)

lemma fst_findOneAndDelete: "fst (findOneAndDelete i ds) = findOne i ds"
  by (induction ds) (auto simp: findOne_def split: prod.splits)

lemma findOneAndDelete_None:
  "findOneAndDelete i ds = (None, ds') \<Longrightarrow> ds' = ds \<and> findOne i ds = None"
  by (induction ds arbitrary: ds') (auto simp: findOne_def split: prod.splits if_splits)

lemma findOneAndDelete_Some:
  "findOneAndDelete i ds = (Some d, ds') \<Longrightarrow>
     findOne i ds = Some d \<and> Suc (length ds') = length ds \<and> set ds' \<subseteq> set ds"
  by (induction ds arbitrary: ds') (auto simp: findOne_def split: prod.splits if_splits)

lemma set_findOneAndDelete: "set (snd (findOneAndDelete i ds)) \<subseteq> set ds"
  by (induction ds) (auto split: prod.splits)

lemma findOne_findOneAndDelete_other:
  "x \<noteq> i \<Longrightarrow> findOne x (snd (findOneAndDelete i ds)) = findOne x ds"
  by (induction ds) (auto simp: findOne_def split: prod.splits)

lemma distinct_findOneAndDelete:
  "distinct (map oid ds) \<Longrightarrow> distinct (map oid (snd (findOneAndDelete i ds)))"
proof (induction ds)
  case Nil
  then show ?case by simp
next
  case (Cons d ds)
  have "oid d \<notin> oid ` set (snd (findOneAndDelete i ds))"
    using Cons.prems set_findOneAndDelete[of i ds] by auto
  with Cons show ?case by (auto split: prod.splits)
qed

lemma findOne_findOneAndDelete_same:
  "distinct (map oid ds) \<Longrightarrow> findOne i (snd (findOneAndDelete i ds)) = None"
proof (induction ds)
  case Nil
  then show ?case by (simp add: findOne_def)
next
  case (Cons d ds)
  show ?case
  proof (cases "oid d = i")
    case True
    with Cons.prems show ?thesis by (auto simp: findOne_None_iff)
  next
    case False
    with Cons show ?thesis by (auto simp: findOne_def split: prod.splits)
  qed
qed

lemma findOne_Some_oid: "findOne c ds = Some d \<Longrightarrow> oid d = c"
  by (auto simp: findOne_def find_Some_iff)

lemma touch_touch [simp]: "touch s t (touch s' t' d) = touch s t d"
  by (simp add: touch_def)

section \<open>Casting identifiers\<close>




lemma canonical_cast: "castObjectId i = Some c \<Longrightarrow> canonical i = c"
  by (simp add: canonical_def)

lemma resolve_cast: "castObjectId i = Some c \<Longrightarrow> resolve i ds = findOne c ds"
  by (simp add: resolve_def)

lemma resolve_None_cast: "castObjectId i = None \<Longrightarrow> resolve i ds = None"
  by (simp add: resolve_def)

lemma resolve_Some_cast: "resolve i ds = Some d \<Longrightarrow> castObjectId i = Some (oid d)"
  by (auto simp: resolve_def findOne_Some_oid split: option.splits)

lemma resolve_Some_findOne: "resolve i ds = Some d \<Longrightarrow> findOne (canonical i) ds = Some d"
  by (auto simp: resolve_def canonical_def split: option.splits)

lemma resolve_findOneAndUpdate:
  "resolve x (snd (findOneAndUpdate c s t ds)) =
     (if castObjectId x = Some c then map_option (touch s t) (resolve x ds) else resolve x ds)"
  by (auto simp: resolve_def findOne_findOneAndUpdate split: option.splits)

lemma resolve_None_findOneAndUpdate:
  "resolve x (snd (findOneAndUpdate c s t ds)) = None \<longleftrightarrow> resolve x ds = None"
  by (simp add: resolve_findOneAndUpdate)

lemma findByIdAndUpdate_fails:
  assumes bad: "raise \<or> resolve i ds = None"
  shows "findByIdAndUpdate raise i s t ds = Inl CastError
     \<or> findByIdAndUpdate raise i s t ds = Inl StoreError
     \<or> findByIdAndUpdate raise i s t ds = Inr (None, ds)"
proof (cases "castObjectId i")
  case None
  then show ?thesis by (simp add: findByIdAndUpdate_def)
next
  case (Some c)
  show ?thesis
  proof (cases raise)
    case True
    with Some show ?thesis by (simp add: findByIdAndUpdate_def)
  next
    case False
    from bad False Some have none: "findOne c ds = None" by (simp add: resolve_def)
    obtain r ds' where fou: "findOneAndUpdate c s t ds = (r, ds')"
      by (cases "findOneAndUpdate c s t ds")
    with fst_findOneAndUpdate[of c s t ds] none have "r = None" by simp
    with fou findOneAndUpdate_None[of c s t ds ds'] have "findOneAndUpdate c s t ds = (None, ds)"
      by simp
    with Some False show ?thesis by (simp add: findByIdAndUpdate_def)
  qed
qed

lemma findByIdAndUpdate_succeeds:
  assumes "\<not> raise" and "resolve i ds = Some d"
  shows "findByIdAndUpdate raise i s t ds =
           Inr (Some (touch s t d), snd (findOneAndUpdate (canonical i) s t ds))"
proof -
  from assms(2) have c: "castObjectId i = Some (oid d)" by (rule resolve_Some_cast)
  with assms(2) have f: "findOne (oid d) ds = Some d" by (simp add: resolve_def)
  have "fst (findOneAndUpdate (oid d) s t ds) = Some (touch s t d)"
    using fst_findOneAndUpdate[of "oid d" s t ds] f by simp
  then have "findOneAndUpdate (oid d) s t ds = (Some (touch s t d), snd (findOneAndUpdate (oid d) s t ds))"
    by (metis prod.collapse)
  with c assms(1) show ?thesis by (simp add: findByIdAndUpdate_def canonical_def)
qed

lemma findByIdAndDelete_fails:
  assumes bad: "raise \<or> resolve i ds = None"
  shows "findByIdAndDelete raise i ds = Inl CastError
     \<or> findByIdAndDelete raise i ds = Inl StoreError
     \<or> findByIdAndDelete raise i ds = Inr (None, ds)"
proof (cases "castObjectId i")
  case None
  then show ?thesis by (simp add: findByIdAndDelete_def)
next
  case (Some c)
  show ?thesis
  proof (cases raise)
    case True
    with Some show ?thesis by (simp add: findByIdAndDelete_def)
  next
    case False
    from bad False Some have none: "findOne c ds = None" by (simp add: resolve_def)
    obtain r ds' where fod: "findOneAndDelete c ds = (r, ds')"
      by (cases "findOneAndDelete c ds")
    with fst_findOneAndDelete[of c ds] none have "r = None" by simp
    with fod findOneAndDelete_None[of c ds ds'] have "findOneAndDelete c ds = (None, ds)"
      by simp
    with Some False show ?thesis by (simp add: findByIdAndDelete_def)
  qed
qed

lemma findByIdAndDelete_succeeds:
  assumes "\<not> raise" and "resolve i ds = Some d"
  shows "findByIdAndDelete raise i ds = Inr (Some d, snd (findOneAndDelete (canonical i) ds))"
proof -
  from assms(2) have c: "castObjectId i = Some (oid d)" by (rule resolve_Some_cast)
  with assms(2) have f: "findOne (oid d) ds = Some d" by (simp add: resolve_def)
  have "fst (findOneAndDelete (oid d) ds) = Some d"
    using fst_findOneAndDelete[of "oid d" ds] f by simp
  then have "findOneAndDelete (oid d) ds = (Some d, snd (findOneAndDelete (oid d) ds))"
    by (metis prod.collapse)
  with c assms(1) show ?thesis by (simp add: findByIdAndDelete_def canonical_def)
qed

section \<open>The loop of the batch update\<close>

lemma update_fails_findOneAndUpdate [simp]:
  "update_fails f (snd (findOneAndUpdate c s t ds)) = update_fails f ds"
  by (auto simp: update_fails_def fun_eq_iff resolve_None_findOneAndUpdate)

lemma update_fails_pair [simp]:
  "update_fails f ds (k, u) = (f k \<or> resolve (es_id u) ds = None)"
  by (simp add: update_fails_def)

lemma transform_touch: "transform (touch s t d) = snapshot_after s t d"
  by (simp add: transform_def touch_def snapshot_after_def)

lemma snapshot_after_touch [simp]: "snapshot_after s t (touch s' t' d) = snapshot_after s t d"
  by (simp add: touch_def snapshot_after_def)

lemma resolved_cast_iff:
  "resolve i ds \<noteq> None \<Longrightarrow> castObjectId i = Some c \<longleftrightarrow> c = canonical i"
  by (auto simp: resolve_def canonical_def split: option.splits)

lemma update_loop_fail:
  assumes "f 0 \<or> resolve (es_id u) ds = None"
  shows "update_loop f t (u # us) ds upd fl =
           update_loop (\<lambda>n. f (Suc n)) t us ds upd (fl @ [es_id u])"
  using findByIdAndUpdate_fails[OF assms, of "es_status u" t] by auto

lemma update_loop_ok:
  assumes "\<not> (f 0 \<or> resolve (es_id u) ds = None)"
  shows "update_loop f t (u # us) ds upd fl =
           update_loop (\<lambda>n. f (Suc n)) t us
             (snd (findOneAndUpdate (canonical (es_id u)) (es_status u) t ds))
             (upd @ [snapshot_after (es_status u) t (the (resolve (es_id u) ds))]) fl"
proof -
  from assms obtain d where d: "resolve (es_id u) ds = Some d" and nf: "\<not> f 0" by auto
  from findByIdAndUpdate_succeeds[OF nf d, of "es_status u" t] d show ?thesis
    by (simp add: transform_touch)
qed

lemma update_loop_failed:
  "failed (fst (update_loop (\<lambda>n. f (k + n)) t us ds upd fl)) =
     fl @ map (es_id \<circ> snd) (filter (update_fails f ds) (enumerate k us))"
proof (induction us arbitrary: k ds upd fl)
  case Nil
  then show ?case by simp
next
  case (Cons u us)
  show ?case
  proof (cases "f k \<or> resolve (es_id u) ds = None")
    case True
    then have step: "f (k + 0) \<or> resolve (es_id u) ds = None" by simp
    show ?thesis
      unfolding update_loop_fail[where f="\<lambda>n. f (k + n)", OF step]
      using Cons.IH[of "Suc k" ds upd "fl @ [es_id u]"] True by simp
  next
    case False
    then have step: "\<not> (f (k + 0) \<or> resolve (es_id u) ds = None)" by simp
    show ?thesis
      unfolding update_loop_ok[where f="\<lambda>n. f (k + n)", OF step]
      using Cons.IH[of "Suc k"] False by simp
  qed
qed

lemma update_loop_updated:
  "updated (fst (update_loop (\<lambda>n. f (k + n)) t us ds upd fl)) =
     upd @ map (\<lambda>iu. snapshot_after (es_status (snd iu)) t (the (resolve (es_id (snd iu)) ds)))
             (filter (Not \<circ> update_fails f ds) (enumerate k us))"
proof (induction us arbitrary: k ds upd fl)
  case Nil
  then show ?case by simp
next
  case (Cons u us)
  show ?case
  proof (cases "f k \<or> resolve (es_id u) ds = None")
    case True
    then have step: "f (k + 0) \<or> resolve (es_id u) ds = None" by simp
    show ?thesis
      unfolding update_loop_fail[where f="\<lambda>n. f (k + n)", OF step]
      using Cons.IH[of "Suc k" ds upd "fl @ [es_id u]"] True by simp
  next
    case False
    then have step: "\<not> (f (k + 0) \<or> resolve (es_id u) ds = None)" by simp
    let ?ds1 = "snd (findOneAndUpdate (canonical (es_id u)) (es_status u) t ds)"
    have same: "snapshot_after (es_status (snd iu)) t (the (resolve (es_id (snd iu)) ?ds1))
        = snapshot_after (es_status (snd iu)) t (the (resolve (es_id (snd iu)) ds))"
      if "\<not> update_fails f ds iu" for iu
    proof -
      from that obtain d where "resolve (es_id (snd iu)) ds = Some d"
        by (auto simp: update_fails_def)
      then show ?thesis by (simp add: resolve_findOneAndUpdate)
    qed
    have "map (\<lambda>iu. snapshot_after (es_status (snd iu)) t (the (resolve (es_id (snd iu)) ?ds1)))
            (filter (Not \<circ> update_fails f ds) (enumerate (Suc k) us))
        = map (\<lambda>iu. snapshot_after (es_status (snd iu)) t (the (resolve (es_id (snd iu)) ds)))
            (filter (Not \<circ> update_fails f ds) (enumerate (Suc k) us))"
      by (rule map_cong) (auto simp: same)
    then show ?thesis
      unfolding update_loop_ok[where f="\<lambda>n. f (k + n)", OF step]
      using Cons.IH[of "Suc k" ?ds1] False by simp
  qed
qed

lemma update_loop_store:
  "findOne c (snd (update_loop (\<lambda>n. f (k + n)) t us ds upd fl)) =
     fold (\<lambda>iu. map_option (touch (es_status (snd iu)) t))
       (filter (\<lambda>iu. \<not> update_fails f ds iu \<and> castObjectId (es_id (snd iu)) = Some c) (enumerate k us))
       (findOne c ds)"
proof (induction us arbitrary: k ds upd fl)
  case Nil
  then show ?case by simp
next
  case (Cons u us)
  show ?case
  proof (cases "f k \<or> resolve (es_id u) ds = None")
    case True
    then have step: "f (k + 0) \<or> resolve (es_id u) ds = None" by simp
    show ?thesis
      unfolding update_loop_fail[where f="\<lambda>n. f (k + n)", OF step]
      using Cons.IH[of "Suc k" ds upd "fl @ [es_id u]"] True by simp
  next
    case False
    then have step: "\<not> (f (k + 0) \<or> resolve (es_id u) ds = None)" by simp
    from False have "resolve (es_id u) ds \<noteq> None" by blast
    then have c: "castObjectId (es_id u) = Some c \<longleftrightarrow> c = canonical (es_id u)"
      by (rule resolved_cast_iff)
    show ?thesis
      unfolding update_loop_ok[where f="\<lambda>n. f (k + n)", OF step]
      using Cons.IH[of "Suc k"] False c by (simp add: findOne_findOneAndUpdate)
  qed
qed


lemma fold_touch_last:
  "xs \<noteq> [] \<Longrightarrow> fold (\<lambda>iu. map_option (touch (g iu) t)) xs opt = map_option (touch (g (last xs)) t) opt"
proof (induction xs arbitrary: opt)
  case Nil
  then show ?case by simp
next
  case (Cons a xs)
  then show ?case by (cases "xs = []") (simp_all add: option.map_comp comp_def)
qed

lemma batchUpdate_validated:
  assumes "validateBatchEditStatusRequest request = Inr (Some us)" and "\<not> connect_fails env"
  shows "batchUpdateRequestStatuses env t ds request =
           (Inr (fst (update_loop (raises env) t us ds [] [])),
            snd (update_loop (raises env) t us ds [] []))"
  using assms by (simp add: batchUpdateRequestStatuses_def connectDB_def split: prod.splits)

lemma enumerate_nth_mem: "i < length xs \<Longrightarrow> (i, xs ! i) \<in> set (enumerate 0 xs)"
  by (simp add: in_set_enumerate_eq)

section \<open>Partition of a valid batch into updated and failed\<close>

lemmas sample_defs =
  eval_defs sample_store_def sample_pairs_def sample_batch_def sample_validated_def sample_result_def
  sample_store_after_def padded_batch_def upper_batch_def twice_batch_def second_call_raises_def
  batchUpdateRequestStatuses_def validateBatchEditStatusRequest_def validateEditStatusRequest_def
  isValidStatus_def findByIdAndUpdate_def castObjectId_def is_hex_digit_def lower_hex_def
  findOne_def resolve_def canonical_def transform_def touch_def snapshot_after_def update_fails_def

lemma sample_batch_validated:
  "validateBatchEditStatusRequest sample_batch = Inr (Some sample_validated)"
  by (simp add: sample_defs)

lemma sample_batch_run:
  "batchUpdateRequestStatuses no_faults 7 sample_store sample_batch =
     (Inr sample_result, sample_store_after)"
  by (simp add: sample_defs)




lemma update_loop_failed_iff:
  "x \<in> set (failed (fst (update_loop f t us ds [] []))) \<longleftrightarrow>
     (\<exists>j<length us. update_fails f ds (j, us ! j) \<and> es_id (us ! j) = x)"
proof -
  have "failed (fst (update_loop f t us ds [] [])) =
      map (es_id \<circ> snd) (filter (update_fails f ds) (enumerate 0 us))"
    using update_loop_failed[of f 0 t us ds "[]" "[]"] by simp
  then show ?thesis
    by (auto simp: in_set_enumerate_eq image_iff)
qed







section \<open>Isolation of per-item failures\<close>

text \<open>
  C3. For every validated batch status update (the connection being up) the call returns
  a result and throws nothing, whatever the store raises. An item whose store call
  raises or whose identifier resolves to no record has that identifier in \<open>failed\<close>;
  every other item, also one that comes after a failed item, has in \<open>updated\<close> the
  snapshot of the record it resolves to, with the new status and the current date.
  Nothing is rolled back: afterwards each record holds the status of the last item that
  was applied to it, and a record no item was applied to is as before.
\<close>

theorem batch_update_isolates_failures:
  assumes "validateBatchEditStatusRequest request = Inr (Some us)" and "\<not> connect_fails env"
  shows "\<exists>r ds'. batchUpdateRequestStatuses env currentDate ds request = (Inr r, ds')
     \<and> (\<forall>i<length us. update_fails (raises env) ds (i, us ! i) \<longrightarrow> es_id (us ! i) \<in> set (failed r))
     \<and> (\<forall>i<length us. \<not> update_fails (raises env) ds (i, us ! i) \<longrightarrow>
           (\<exists>d. resolve (es_id (us ! i)) ds = Some d
              \<and> snapshot_after (es_status (us ! i)) currentDate d \<in> set (updated r)))
     \<and> (\<forall>c. findOne c ds' =
           (case filter (\<lambda>iu. \<not> update_fails (raises env) ds iu \<and> castObjectId (es_id (snd iu)) = Some c)
                   (enumerate 0 us) of
              [] \<Rightarrow> findOne c ds
            | a # as \<Rightarrow> map_option (touch (es_status (snd (last (a # as)))) currentDate) (findOne c ds)))"
proof -
  let ?res = "update_loop (raises env) currentDate us ds [] []"
  have run: "batchUpdateRequestStatuses env currentDate ds request = (Inr (fst ?res), snd ?res)"
    using assms by (rule batchUpdate_validated)
  have up: "updated (fst ?res) =
      map (\<lambda>iu. snapshot_after (es_status (snd iu)) currentDate (the (resolve (es_id (snd iu)) ds)))
        (filter (Not \<circ> update_fails (raises env) ds) (enumerate 0 us))"
    using update_loop_updated[of "raises env" 0 currentDate us ds "[]" "[]"] by simp
  have st: "findOne c (snd ?res) =
      fold (\<lambda>iu. map_option (touch (es_status (snd iu)) currentDate))
        (filter (\<lambda>iu. \<not> update_fails (raises env) ds iu \<and> castObjectId (es_id (snd iu)) = Some c)
           (enumerate 0 us))
        (findOne c ds)" for c
    using update_loop_store[of c "raises env" 0 currentDate us ds "[]" "[]"] by simp
  have a: "es_id (us ! i) \<in> set (failed (fst ?res))"
    if "i < length us" "update_fails (raises env) ds (i, us ! i)" for i
    unfolding update_loop_failed_iff using that by blast
  have b: "\<exists>d. resolve (es_id (us ! i)) ds = Some d
      \<and> snapshot_after (es_status (us ! i)) currentDate d \<in> set (updated (fst ?res))"
    if "i < length us" "\<not> update_fails (raises env) ds (i, us ! i)" for i
  proof -
    from that(2) obtain d where d: "resolve (es_id (us ! i)) ds = Some d" by auto
    have "(i, us ! i) \<in> set (filter (Not \<circ> update_fails (raises env) ds) (enumerate 0 us))"
      using that enumerate_nth_mem[of i us] by simp
    then have "(\<lambda>iu. snapshot_after (es_status (snd iu)) currentDate (the (resolve (es_id (snd iu)) ds)))
        (i, us ! i) \<in> set (updated (fst ?res))"
      unfolding up set_map by (rule imageI)
    with d show ?thesis by simp
  qed
  have c: "findOne c (snd ?res) =
      (case filter (\<lambda>iu. \<not> update_fails (raises env) ds iu \<and> castObjectId (es_id (snd iu)) = Some c)
              (enumerate 0 us) of
         [] \<Rightarrow> findOne c ds
       | a # as \<Rightarrow> map_option (touch (es_status (snd (last (a # as)))) currentDate) (findOne c ds))" for c
  proof (cases "filter (\<lambda>iu. \<not> update_fails (raises env) ds iu \<and> castObjectId (es_id (snd iu)) = Some c)
      (enumerate 0 us)")
    case Nil
    then show ?thesis unfolding st by simp
  next
    case (Cons a as)
    show ?thesis unfolding st Cons list.case by (rule fold_touch_last) simp
  qed
  from run a b c show ?thesis by blast
qed

theorem batch_update_isolates_failures_witness:
  "validateBatchEditStatusRequest sample_batch = Inr (Some sample_validated)
   \<and> \<not> connect_fails no_faults
   \<and> batchUpdateRequestStatuses no_faults 7 sample_store sample_batch
        = (Inr sample_result, sample_store_after)
   \<and> update_fails (raises no_faults) sample_store (1, sample_validated ! 1)
   \<and> es_id (sample_validated ! 1) \<in> set (failed sample_result)
   \<and> \<not> update_fails (raises no_faults) sample_store (2, sample_validated ! 2)
   \<and> resolve (es_id (sample_validated ! 2)) sample_store
        = Some (doc ''507f191e810c19729de860ea'' 2 ''pending'')
   \<and> snapshot_after ''completed'' 7 (doc ''507f191e810c19729de860ea'' 2 ''pending'')
        \<in> set (updated sample_result)
   \<and> findOne ''507f1f77bcf86cd799439011'' sample_store_after
        = Some (touch ''approved'' 7 (doc ''507f1f77bcf86cd799439011'' 1 ''pending''))"
proof -
  have nf: "\<not> connect_fails no_faults" by (simp add: no_faults_def)
  from batch_update_isolates_failures[OF sample_batch_validated nf, of 7 sample_store]
  have "\<exists>r ds'. batchUpdateRequestStatuses no_faults 7 sample_store sample_batch = (Inr r, ds')"
    by blast
  with sample_batch_validated sample_batch_run nf show ?thesis
    by (simp add: sample_defs)
qed

section \<open>One timestamp per batch\<close>

text \<open>
  C9. Every snapshot in the \<open>updated\<close> list of one \<open>batchUpdateRequestStatuses\<close> call
  carries the same \<open>lastEditedDate\<close>, the date taken once before the loop.
\<close>

theorem batch_update_single_timestamp:
  assumes "batchUpdateRequestStatuses env currentDate ds request = (Inr r, ds')"
  shows "\<forall>s\<in>set (updated r). lastEditedDate s = Some currentDate"
proof
  fix s assume s: "s \<in> set (updated r)"
  from assms obtain us where "update_loop (raises env) currentDate us ds [] [] = (r, ds')"
    by (auto simp: batchUpdateRequestStatuses_def split: sum.splits option.splits prod.splits)
  then have r: "r = fst (update_loop (raises env) currentDate us ds [] [])"
    by simp
  have "updated r =
      map (\<lambda>iu. snapshot_after (es_status (snd iu)) currentDate (the (resolve (es_id (snd iu)) ds)))
        (filter (Not \<circ> update_fails (raises env) ds) (enumerate 0 us))"
    unfolding r using update_loop_updated[of "raises env" 0 currentDate us ds "[]" "[]"] by simp
  with s show "lastEditedDate s = Some currentDate"
    by (auto simp: snapshot_after_def)
qed

theorem batch_update_single_timestamp_witness:
  "batchUpdateRequestStatuses no_faults 7 sample_store sample_batch
     = (Inr sample_result, sample_store_after)
   \<and> map lastEditedDate (updated sample_result) = [Some 7, Some 7]"
proof -
  from batch_update_single_timestamp[OF sample_batch_run]
  have "\<forall>s\<in>set (updated sample_result). lastEditedDate s = Some 7" .
  then have "map lastEditedDate (updated sample_result) = [Some 7, Some 7]"
    by (simp add: sample_result_def)
  with sample_batch_run show ?thesis by simp
qed

section \<open>The loop of the batch delete\<close>

lemma validate_ids_ok:
  "list_all id_ok raw \<Longrightarrow> validate_ids raw acc = Some (acc @ map trim_of raw)"
proof (induction raw arbitrary: acc)
  case Nil
  then show ?case by simp
next
  case (Cons v raw)
  then show ?case by (cases v) (simp_all add: id_ok_def)
qed

lemma validate_ids_Some:
  "validate_ids raw acc = Some ids \<Longrightarrow> list_all id_ok raw"
proof (induction raw arbitrary: acc)
  case Nil
  then show ?case by simp
next
  case (Cons v raw)
  then show ?case by (cases v) (auto simp: id_ok_def split: if_splits)
qed

lemma validateBatchDelete_ok:
  "ids_of request = Some raw \<Longrightarrow> raw \<noteq> [] \<Longrightarrow> list_all id_ok raw
   \<Longrightarrow> validateBatchDeleteRequest request = Inr (Some (map trim_of raw))"
  by (auto simp: ids_of_def validateBatchDeleteRequest_def validate_ids_ok
      split: sum.splits jsval.splits)

lemma validateBatchDelete_Some:
  assumes "validateBatchDeleteRequest request = Inr (Some ids)"
  shows "\<exists>raw. ids_of request = Some raw \<and> raw \<noteq> [] \<and> list_all id_ok raw \<and> ids = map trim_of raw"
proof -
  from assms obtain raw where raw: "get_prop request ''ids'' = Inr (JArr raw)" "raw \<noteq> []"
    and v: "validate_ids raw [] = Some ids"
    by (auto simp: validateBatchDeleteRequest_def split: sum.splits jsval.splits if_splits)
  from v have ok: "list_all id_ok raw" by (rule validate_ids_Some)
  with v have "ids = map trim_of raw" by (simp add: validate_ids_ok)
  with raw ok show ?thesis by (auto simp: ids_of_def)
qed

lemma delete_loop_fail:
  assumes "f 0 \<or> resolve i ds = None"
  shows "delete_loop f (i # rest) ds cnt fl = delete_loop (\<lambda>n. f (Suc n)) rest ds cnt (fl @ [i])"
  using findByIdAndDelete_fails[OF assms] by auto

lemma delete_loop_ok:
  assumes "\<not> (f 0 \<or> resolve i ds = None)"
  shows "delete_loop f (i # rest) ds cnt fl =
           delete_loop (\<lambda>n. f (Suc n)) rest (snd (findOneAndDelete (canonical i) ds)) (Suc cnt) fl"
proof -
  from assms obtain d where d: "resolve i ds = Some d" and nf: "\<not> f 0" by auto
  from findByIdAndDelete_succeeds[OF nf d] show ?thesis by simp
qed

lemma length_findOneAndDelete:
  assumes "resolve i ds \<noteq> None"
  shows "Suc (length (snd (findOneAndDelete (canonical i) ds))) = length ds"
proof -
  from assms obtain d where "resolve i ds = Some d" by auto
  then have f: "findOne (canonical i) ds = Some d" by (rule resolve_Some_findOne)
  obtain r ds' where fod: "findOneAndDelete (canonical i) ds = (r, ds')"
    by (cases "findOneAndDelete (canonical i) ds")
  with fst_findOneAndDelete[of "canonical i" ds] f have "r = Some d" by simp
  with fod have "findOneAndDelete (canonical i) ds = (Some d, ds')" by simp
  then have "Suc (length ds') = length ds" by (simp add: findOneAndDelete_Some)
  with fod show ?thesis by simp
qed

lemma resolve_None_subset:
  "set ds' \<subseteq> set ds \<Longrightarrow> resolve x ds = None \<Longrightarrow> resolve x ds' = None"
  by (auto simp: resolve_def findOne_None_iff split: option.splits)

lemma delete_loop_count:
  "deletedCount (fst (delete_loop f ids ds cnt fl)) + length (failed_ids (fst (delete_loop f ids ds cnt fl)))
     = cnt + length fl + length ids"
proof (induction ids arbitrary: f ds cnt fl)
  case Nil
  then show ?case by simp
next
  case (Cons i ids)
  show ?case
  proof (cases "f 0 \<or> resolve i ds = None")
    case True
    show ?thesis unfolding delete_loop_fail[where f=f, OF True]
      using Cons[of "\<lambda>n. f (Suc n)" ds cnt "fl @ [i]"] by simp
  next
    case False
    show ?thesis unfolding delete_loop_ok[where f=f, OF False]
      using Cons[of "\<lambda>n. f (Suc n)" "snd (findOneAndDelete (canonical i) ds)" "Suc cnt" fl] by simp
  qed
qed

lemma delete_loop_store_length:
  "length (snd (delete_loop f ids ds cnt fl)) + deletedCount (fst (delete_loop f ids ds cnt fl))
     = length ds + cnt"
proof (induction ids arbitrary: f ds cnt fl)
  case Nil
  then show ?case by simp
next
  case (Cons i ids)
  show ?case
  proof (cases "f 0 \<or> resolve i ds = None")
    case True
    show ?thesis unfolding delete_loop_fail[where f=f, OF True]
      using Cons[of "\<lambda>n. f (Suc n)" ds cnt "fl @ [i]"] by simp
  next
    case False
    then have "resolve i ds \<noteq> None" by blast
    then have "Suc (length (snd (findOneAndDelete (canonical i) ds))) = length ds"
      by (rule length_findOneAndDelete)
    then show ?thesis unfolding delete_loop_ok[where f=f, OF False]
      using Cons[of "\<lambda>n. f (Suc n)" "snd (findOneAndDelete (canonical i) ds)" "Suc cnt" fl] by simp
  qed
qed

lemma delete_loop_store_subset: "set (snd (delete_loop f ids ds cnt fl)) \<subseteq> set ds"
proof (induction ids arbitrary: f ds cnt fl)
  case Nil
  then show ?case by simp
next
  case (Cons i ids)
  show ?case
  proof (cases "f 0 \<or> resolve i ds = None")
    case True
    show ?thesis unfolding delete_loop_fail[where f=f, OF True] by (rule Cons)
  next
    case False
    show ?thesis unfolding delete_loop_ok[where f=f, OF False]
      using Cons[of "\<lambda>n. f (Suc n)" "snd (findOneAndDelete (canonical i) ds)" "Suc cnt" fl]
        set_findOneAndDelete[of "canonical i" ds] by blast
  qed
qed

lemma delete_loop_keeps_absent:
  "resolve x ds = None \<Longrightarrow> resolve x (snd (delete_loop f ids ds cnt fl)) = None"
  using delete_loop_store_subset by (rule resolve_None_subset)

lemma delete_loop_failed_subseq:
  "\<exists>ys. failed_ids (fst (delete_loop f ids ds cnt fl)) = fl @ ys \<and> subseq ys ids"
proof (induction ids arbitrary: f ds cnt fl)
  case Nil
  then show ?case by simp
next
  case (Cons i ids)
  show ?case
  proof (cases "f 0 \<or> resolve i ds = None")
    case True
    from Cons[of "\<lambda>n. f (Suc n)" ds cnt "fl @ [i]"] obtain ys where
      ys: "failed_ids (fst (delete_loop (\<lambda>n. f (Suc n)) ids ds cnt (fl @ [i]))) = (fl @ [i]) @ ys"
        "subseq ys ids"
      by blast
    have "failed_ids (fst (delete_loop f (i # ids) ds cnt fl)) = fl @ (i # ys) \<and> subseq (i # ys) (i # ids)"
      unfolding delete_loop_fail[where f=f, OF True] using ys by simp
    then show ?thesis by blast
  next
    case False
    from Cons[of "\<lambda>n. f (Suc n)" "snd (findOneAndDelete (canonical i) ds)" "Suc cnt" fl] obtain ys where
      ys: "failed_ids (fst (delete_loop (\<lambda>n. f (Suc n)) ids (snd (findOneAndDelete (canonical i) ds)) (Suc cnt) fl)) = fl @ ys"
        "subseq ys ids"
      by blast
    have "failed_ids (fst (delete_loop f (i # ids) ds cnt fl)) = fl @ ys \<and> subseq ys (i # ids)"
      unfolding delete_loop_ok[where f=f, OF False] using ys by (simp add: list_emb_Cons)
    then show ?thesis by blast
  qed
qed

lemma delete_loop_failed_mem:
  "i < length ids \<Longrightarrow> f i \<or> resolve (ids ! i) ds = None
   \<Longrightarrow> ids ! i \<in> set (failed_ids (fst (delete_loop f ids ds cnt fl)))"
proof (induction ids arbitrary: f i ds cnt fl)
  case Nil
  then show ?case by simp
next
  case (Cons y ys)
  show ?case
  proof (cases i)
    case 0
    with Cons.prems have bad: "f 0 \<or> resolve y ds = None" by simp
    obtain zs where
      "failed_ids (fst (delete_loop (\<lambda>n. f (Suc n)) ys ds cnt (fl @ [y]))) = (fl @ [y]) @ zs"
      using delete_loop_failed_subseq[of "\<lambda>n. f (Suc n)" ys ds cnt "fl @ [y]"] by blast
    then show ?thesis unfolding delete_loop_fail[where f=f, OF bad] using 0 by simp
  next
    case (Suc j)
    with Cons.prems have j: "j < length ys" and bad: "f (Suc j) \<or> resolve (ys ! j) ds = None"
      by simp_all
    show ?thesis
    proof (cases "f 0 \<or> resolve y ds = None")
      case True
      show ?thesis unfolding delete_loop_fail[where f=f, OF True]
        using Cons.IH[of j "\<lambda>n. f (Suc n)" ds cnt "fl @ [y]", OF j] bad Suc by simp
    next
      case False
      have bad': "f (Suc j) \<or> resolve (ys ! j) (snd (findOneAndDelete (canonical y) ds)) = None"
        using bad resolve_None_subset[OF set_findOneAndDelete[of "canonical y" ds], of "ys ! j"]
        by auto
      show ?thesis unfolding delete_loop_ok[where f=f, OF False]
        using Cons.IH[of j "\<lambda>n. f (Suc n)" "snd (findOneAndDelete (canonical y) ds)" "Suc cnt" fl, OF j]
          bad' Suc
        by simp
    qed
  qed
qed

lemma resolve_findOneAndDelete_same:
  assumes "distinct (map oid ds)" and "resolve y ds \<noteq> None"
  shows "resolve y (snd (findOneAndDelete (canonical y) ds)) = None"
proof -
  from assms(2) obtain c where c: "castObjectId y = Some c"
    by (auto simp: resolve_def split: option.splits)
  then have "canonical y = c" by (rule canonical_cast)
  with c findOne_findOneAndDelete_same[OF assms(1), of c] show ?thesis
    by (simp add: resolve_def)
qed

lemma resolve_findOneAndDelete_other:
  assumes "castObjectId x \<noteq> castObjectId y" and "resolve y ds \<noteq> None"
  shows "resolve x (snd (findOneAndDelete (canonical y) ds)) = resolve x ds"
proof (cases "castObjectId x")
  case None
  then show ?thesis by (simp add: resolve_def)
next
  case (Some c)
  from assms(2) obtain c' where c': "castObjectId y = Some c'"
    by (auto simp: resolve_def split: option.splits)
  with Some assms(1) have "c \<noteq> c'" by simp
  moreover from c' have "canonical y = c'" by (rule canonical_cast)
  ultimately show ?thesis using Some
    by (simp add: resolve_def findOne_findOneAndDelete_other)
qed

lemma delete_loop_absent_after:
  "distinct (map oid ds) \<Longrightarrow> i < length ids \<Longrightarrow> \<not> f i
   \<Longrightarrow> resolve (ids ! i) (snd (delete_loop f ids ds cnt fl)) = None"
proof (induction ids arbitrary: f i ds cnt fl)
  case Nil
  then show ?case by simp
next
  case (Cons y ys)
  have d1: "distinct (map oid (snd (findOneAndDelete (canonical y) ds)))"
    using Cons.prems(1) by (rule distinct_findOneAndDelete)
  show ?case
  proof (cases "f 0 \<or> resolve y ds = None")
    case True
    show ?thesis
    proof (cases i)
      case 0
      with Cons.prems True have "resolve y ds = None" by simp
      then show ?thesis unfolding delete_loop_fail[where f=f, OF True] using 0
        by (simp add: delete_loop_keeps_absent)
    next
      case (Suc j)
      with Cons.prems have j: "j < length ys" and nf: "\<not> f (Suc j)" by simp_all
      show ?thesis unfolding delete_loop_fail[where f=f, OF True]
        using Cons.IH[of ds j "\<lambda>n. f (Suc n)" cnt "fl @ [y]", OF Cons.prems(1) j] nf Suc by simp
    qed
  next
    case False
    show ?thesis
    proof (cases i)
      case 0
      from False have "resolve y ds \<noteq> None" by blast
      with Cons.prems(1) have "resolve y (snd (findOneAndDelete (canonical y) ds)) = None"
        by (rule resolve_findOneAndDelete_same)
      then show ?thesis unfolding delete_loop_ok[where f=f, OF False] using 0
        by (simp add: delete_loop_keeps_absent)
    next
      case (Suc j)
      with Cons.prems have j: "j < length ys" and nf: "\<not> f (Suc j)" by simp_all
      show ?thesis unfolding delete_loop_ok[where f=f, OF False]
        using Cons.IH[of "snd (findOneAndDelete (canonical y) ds)" j "\<lambda>n. f (Suc n)" "Suc cnt" fl, OF d1 j]
          nf Suc
        by simp
    qed
  qed
qed

lemma delete_loop_not_failed:
  "x \<notin> set fl \<Longrightarrow> resolve x ds \<noteq> None
   \<Longrightarrow> (\<forall>i<length ids. ids ! i = x \<longrightarrow> \<not> f i)
   \<Longrightarrow> (\<forall>i<length ids. \<forall>j<length ids.
          castObjectId (ids ! i) = castObjectId x \<and> castObjectId (ids ! j) = castObjectId x \<longrightarrow> i = j)
   \<Longrightarrow> x \<notin> set (failed_ids (fst (delete_loop f ids ds cnt fl)))"
proof (induction ids arbitrary: f ds cnt fl)
  case Nil
  then show ?case by simp
next
  case (Cons y ys)
  have shift: "\<forall>i<length ys. ys ! i = x \<longrightarrow> \<not> f (Suc i)"
    using Cons.prems(3) by auto
  have once: "\<forall>i<length ys. \<forall>j<length ys.
      castObjectId (ys ! i) = castObjectId x \<and> castObjectId (ys ! j) = castObjectId x \<longrightarrow> i = j"
  proof (intro allI impI)
    fix i j assume i: "i < length ys" and j: "j < length ys"
      and c: "castObjectId (ys ! i) = castObjectId x \<and> castObjectId (ys ! j) = castObjectId x"
    from Cons.prems(4)[rule_format, of "Suc i" "Suc j"] i j c show "i = j" by simp
  qed
  show ?case
  proof (cases "castObjectId y = castObjectId x")
    case True
    have rest: "x \<notin> set ys"
    proof
      assume "x \<in> set ys"
      then obtain j where j: "j < length ys" "ys ! j = x" by (auto simp: in_set_conv_nth)
      from Cons.prems(4)[rule_format, of 0 "Suc j"] j True show False by simp
    qed
    have tail: "x \<notin> set zs" if "subseq zs ys" for zs
    proof
      assume "x \<in> set zs"
      with that obtain x' where "x' \<in> set ys" "x = x'" by (rule list_emb_set)
      with rest show False by simp
    qed
    show ?thesis
    proof (cases "f 0 \<or> resolve y ds = None")
      case bad: True
      have "y \<noteq> x"
      proof
        assume "y = x"
        with Cons.prems(2,3) bad show False by auto
      qed
      moreover obtain zs where
        "failed_ids (fst (delete_loop (\<lambda>n. f (Suc n)) ys ds cnt (fl @ [y]))) = (fl @ [y]) @ zs"
        "subseq zs ys"
        using delete_loop_failed_subseq by blast
      ultimately show ?thesis unfolding delete_loop_fail[where f=f, OF bad]
        using Cons.prems(1) tail by simp
    next
      case ok: False
      obtain zs where
        "failed_ids (fst (delete_loop (\<lambda>n. f (Suc n)) ys (snd (findOneAndDelete (canonical y) ds)) (Suc cnt) fl))
           = fl @ zs"
        "subseq zs ys"
        using delete_loop_failed_subseq by blast
      then show ?thesis unfolding delete_loop_ok[where f=f, OF ok]
        using Cons.prems(1) tail by simp
    qed
  next
    case False
    then have ne: "y \<noteq> x" by auto
    show ?thesis
    proof (cases "f 0 \<or> resolve y ds = None")
      case True
      have fl': "x \<notin> set (fl @ [y])" using Cons.prems(1) ne by simp
      show ?thesis unfolding delete_loop_fail[where f=f, OF True]
        using fl' Cons.prems(2) shift once by (rule Cons.IH)
    next
      case ok: False
      then have "resolve y ds \<noteq> None" by blast
      with False have "resolve x (snd (findOneAndDelete (canonical y) ds)) = resolve x ds"
        by (simp add: resolve_findOneAndDelete_other)
      with Cons.prems(2) have other: "resolve x (snd (findOneAndDelete (canonical y) ds)) \<noteq> None"
        by simp
      show ?thesis unfolding delete_loop_ok[where f=f, OF ok]
        using Cons.prems(1) other shift once by (rule Cons.IH)
    qed
  qed
qed

lemma batchDelete_validated:
  assumes "validateBatchDeleteRequest request = Inr (Some ids)" and "\<not> connect_fails env"
  shows "batchDeleteRequests env ds request =
           (Inr (fst (delete_loop (raises env) ids ds 0 [])),
            snd (delete_loop (raises env) ids ds 0 []))"
  using assms by (simp add: batchDeleteRequests_def connectDB_def split: prod.splits)

lemma update_loop_failed_subset:
  "set (failed (fst (update_loop f t us ds [] []))) \<subseteq> es_id ` set us"
proof -
  have "failed (fst (update_loop f t us ds [] [])) =
      map (es_id \<circ> snd) (filter (update_fails f ds) (enumerate 0 us))"
    using update_loop_failed[of f 0 t us ds "[]" "[]"] by simp
  then show ?thesis by (auto simp: in_set_enumerate_eq)
qed

lemmas delete_defs =
  eval_defs sample_store_def delete_first_def delete_again_def padded_ids_def delete_padded_def
  store_after_delete_def delete_batch_def batchDeleteRequests_def validateBatchDeleteRequest_def
  findOne_def ids_of_def id_ok_def castObjectId_def is_hex_digit_def lower_hex_def
  findByIdAndDelete_def resolve_def canonical_def delete_upper_def
  delete_either_case_def

lemma sample_delete_validated:
  "validateBatchDeleteRequest delete_first = Inr (Some [''507f1f77bcf86cd799439011'', ''507f191e810c19729de860eb''])"
  by (simp add: delete_defs)

lemma sample_delete_first:
  "batchDeleteRequests no_faults sample_store delete_first
     = (Inr \<lparr>deletedCount = 1, failed_ids = [''507f191e810c19729de860eb'']\<rparr>, store_after_delete)"
  by (simp add: delete_defs)

lemma sample_delete_second:
  "batchDeleteRequests no_faults store_after_delete delete_again
     = (Inr \<lparr>deletedCount = 0, failed_ids = [''507f1f77bcf86cd799439011'']\<rparr>, store_after_delete)"
  by (simp add: delete_defs)

lemma sample_delete_padded:
  "batchDeleteRequests no_faults sample_store delete_padded
     = (Inr \<lparr>deletedCount = 1, failed_ids = [''507f191e810c19729de860eb'']\<rparr>, store_after_delete)"
  by (simp add: delete_defs)

lemma sample_delete_upper:
  "batchDeleteRequests no_faults sample_store delete_upper
     = (Inr \<lparr>deletedCount = 1, failed_ids = []\<rparr>, store_after_delete)"
  by (simp add: delete_defs)

lemma sample_delete_either_case:
  "batchDeleteRequests no_faults sample_store delete_either_case
     = (Inr \<lparr>deletedCount = 1, failed_ids = [''507f1f77bcf86cd799439011'']\<rparr>, store_after_delete)"
  by (simp add: delete_defs)

section \<open>Independent deletions\<close>

text \<open>
  C8. For every validated batch delete (the connection being up) the call returns a
  result: \<open>deletedCount + length failed = length ids\<close>, every counted deletion removed one
  record, \<open>failed\<close> lists identifiers of the batch in their order, and an identifier whose
  store call raises or that resolves to no record is in \<open>failed\<close>. An identifier that
  resolves to a record, that no other entry of the batch names, and whose store call does
  not raise is not in \<open>failed\<close>, so it is a counted one. After a store call that does not
  raise, the identifier resolves to no record, and every later batch delete lists every
  spelling of it in \<open>failed\<close>.
\<close>

theorem batch_delete_independent:
  assumes "validateBatchDeleteRequest request = Inr (Some ids)" and "\<not> connect_fails env"
  shows "\<exists>r ds'. batchDeleteRequests env ds request = (Inr r, ds')
     \<and> deletedCount r + length (failed_ids r) = length ids
     \<and> length ds' + deletedCount r = length ds
     \<and> subseq (failed_ids r) ids
     \<and> (\<forall>i<length ids. raises env i \<or> resolve (ids ! i) ds = None \<longrightarrow> ids ! i \<in> set (failed_ids r))
     \<and> (\<forall>i<length ids. \<not> raises env i \<and> resolve (ids ! i) ds \<noteq> None
            \<and> (\<forall>j<length ids. j \<noteq> i \<longrightarrow> castObjectId (ids ! j) \<noteq> castObjectId (ids ! i))
          \<longrightarrow> ids ! i \<notin> set (failed_ids r))
     \<and> (\<forall>i<length ids. \<not> raises env i \<and> distinct (map oid ds)
          \<longrightarrow> resolve (ids ! i) ds' = None
            \<and> (\<forall>env2 request2 ids2.
                  validateBatchDeleteRequest request2 = Inr (Some ids2) \<and> \<not> connect_fails env2
                \<longrightarrow> (\<exists>r2 ds2. batchDeleteRequests env2 ds' request2 = (Inr r2, ds2)
                       \<and> (\<forall>y\<in>set ids2. castObjectId y = castObjectId (ids ! i)
                             \<longrightarrow> y \<in> set (failed_ids r2)))))"
proof -
  let ?res = "delete_loop (raises env) ids ds 0 []"
  have run: "batchDeleteRequests env ds request = (Inr (fst ?res), snd ?res)"
    using assms by (rule batchDelete_validated)
  have cnt: "deletedCount (fst ?res) + length (failed_ids (fst ?res)) = length ids"
    using delete_loop_count[of "raises env" ids ds 0 "[]"] by simp
  have len: "length (snd ?res) + deletedCount (fst ?res) = length ds"
    using delete_loop_store_length[of "raises env" ids ds 0 "[]"] by simp
  have sub: "subseq (failed_ids (fst ?res)) ids"
    using delete_loop_failed_subseq[of "raises env" ids ds 0 "[]"] by auto
  have mem: "ids ! i \<in> set (failed_ids (fst ?res))"
    if "i < length ids" "raises env i \<or> resolve (ids ! i) ds = None" for i
    using that by (rule delete_loop_failed_mem)
  have counted: "ids ! i \<notin> set (failed_ids (fst ?res))"
    if i: "i < length ids" and nr: "\<not> raises env i" and ex: "resolve (ids ! i) ds \<noteq> None"
      and once: "\<forall>j<length ids. j \<noteq> i \<longrightarrow> castObjectId (ids ! j) \<noteq> castObjectId (ids ! i)" for i
  proof -
    have only: "j = i" if "j < length ids" "castObjectId (ids ! j) = castObjectId (ids ! i)" for j
      using that once by blast
    have a: "\<forall>k<length ids. ids ! k = ids ! i \<longrightarrow> \<not> raises env k"
    proof (intro allI impI)
      fix k assume k: "k < length ids" and e: "ids ! k = ids ! i"
      from e have "castObjectId (ids ! k) = castObjectId (ids ! i)" by simp
      with k have "k = i" by (rule only)
      with nr show "\<not> raises env k" by simp
    qed
    have b: "\<forall>k<length ids. \<forall>j<length ids.
        castObjectId (ids ! k) = castObjectId (ids ! i) \<and> castObjectId (ids ! j) = castObjectId (ids ! i)
        \<longrightarrow> k = j"
    proof (intro allI impI)
      fix k j assume k: "k < length ids" and j: "j < length ids"
        and c: "castObjectId (ids ! k) = castObjectId (ids ! i) \<and> castObjectId (ids ! j) = castObjectId (ids ! i)"
      from k c have "k = i" by (simp add: only)
      moreover from j c have "j = i" by (simp add: only)
      ultimately show "k = j" by simp
    qed
    show ?thesis using _ ex a b by (rule delete_loop_not_failed) simp
  qed
  have twice: "resolve (ids ! i) (snd ?res) = None
      \<and> (\<forall>env2 request2 ids2.
            validateBatchDeleteRequest request2 = Inr (Some ids2) \<and> \<not> connect_fails env2
          \<longrightarrow> (\<exists>r2 ds2. batchDeleteRequests env2 (snd ?res) request2 = (Inr r2, ds2)
                 \<and> (\<forall>y\<in>set ids2. castObjectId y = castObjectId (ids ! i)
                       \<longrightarrow> y \<in> set (failed_ids r2))))"
    if i: "i < length ids" and nr: "\<not> raises env i" and dd: "distinct (map oid ds)" for i
  proof -
    from dd i nr have gone: "resolve (ids ! i) (snd ?res) = None"
      by (rule delete_loop_absent_after)
    have again: "\<exists>r2 ds2. batchDeleteRequests env2 (snd ?res) request2 = (Inr r2, ds2)
        \<and> (\<forall>y\<in>set ids2. castObjectId y = castObjectId (ids ! i) \<longrightarrow> y \<in> set (failed_ids r2))"
      if v2: "validateBatchDeleteRequest request2 = Inr (Some ids2)" and c2: "\<not> connect_fails env2"
      for env2 request2 ids2
    proof -
      let ?res2 = "delete_loop (raises env2) ids2 (snd ?res) 0 []"
      have run2: "batchDeleteRequests env2 (snd ?res) request2 = (Inr (fst ?res2), snd ?res2)"
        using v2 c2 by (rule batchDelete_validated)
      have "y \<in> set (failed_ids (fst ?res2))"
        if y: "y \<in> set ids2" and c: "castObjectId y = castObjectId (ids ! i)" for y
      proof -
        from y obtain j where j: "j < length ids2" "ids2 ! j = y"
          by (auto simp: in_set_conv_nth)
        from c gone have "resolve y (snd ?res) = None" by (simp add: resolve_def)
        with j have "raises env2 j \<or> resolve (ids2 ! j) (snd ?res) = None" by simp
        with j(1) have "ids2 ! j \<in> set (failed_ids (fst ?res2))"
          by (rule delete_loop_failed_mem)
        with j(2) show ?thesis by simp
      qed
      with run2 show ?thesis by blast
    qed
    from gone again show ?thesis by blast
  qed
  from run cnt len sub mem counted twice show ?thesis by blast
qed

theorem batch_delete_independent_witness:
  "validateBatchDeleteRequest delete_first = Inr (Some [''507f1f77bcf86cd799439011'', ''507f191e810c19729de860eb''])
   \<and> \<not> connect_fails no_faults
   \<and> batchDeleteRequests no_faults sample_store delete_first
       = (Inr \<lparr>deletedCount = 1, failed_ids = [''507f191e810c19729de860eb'']\<rparr>, store_after_delete)
   \<and> resolve ''507f1f77bcf86cd799439011'' sample_store \<noteq> None
   \<and> resolve ''507f1f77bcf86cd799439011'' store_after_delete = None
   \<and> batchDeleteRequests no_faults store_after_delete delete_again
       = (Inr \<lparr>deletedCount = 0, failed_ids = [''507f1f77bcf86cd799439011'']\<rparr>, store_after_delete)
   \<and> batchDeleteRequests no_faults store_after_delete delete_upper
       = (Inr \<lparr>deletedCount = 0, failed_ids = [''507F1F77BCF86CD799439011'']\<rparr>, store_after_delete)"
proof -
  have nf: "\<not> connect_fails no_faults" by (simp add: no_faults_def)
  from batch_delete_independent[OF sample_delete_validated nf, of sample_store]
  have "\<exists>r ds'. batchDeleteRequests no_faults sample_store delete_first = (Inr r, ds')"
    by blast
  moreover have "resolve ''507f1f77bcf86cd799439011'' sample_store \<noteq> None"
    "resolve ''507f1f77bcf86cd799439011'' store_after_delete = None"
    by (simp_all add: delete_defs)
  moreover have "batchDeleteRequests no_faults store_after_delete delete_upper
       = (Inr \<lparr>deletedCount = 0, failed_ids = [''507F1F77BCF86CD799439011'']\<rparr>, store_after_delete)"
    by (simp add: delete_defs)
  ultimately show ?thesis
    using sample_delete_validated nf sample_delete_first sample_delete_second by simp
qed

section \<open>Identifiers are trimmed\<close>

text \<open>
  C10. Validation trims identifiers before use. In a valid batch update every entry of
  \<open>failed\<close> is the trimmed form of a supplied identifier, and an item whose store call does
  not raise is looked up by its trimmed identifier: it goes to \<open>failed\<close>, in trimmed form,
  when the trimmed identifier resolves to no record, and otherwise the record it resolves
  to is in \<open>updated\<close>. In a valid batch delete every entry of \<open>failed\<close> is the trimmed form
  of a supplied identifier, a trimmed identifier that resolves to no record is in
  \<open>failed\<close>, and after a store call that does not raise the trimmed identifier resolves to
  no record. The trimmed form can differ from what the caller wrote.
\<close>

theorem identifiers_are_trimmed:
  "(updates_of request = Some raw \<and> raw \<noteq> [] \<and> list_all pair_ok raw \<and> \<not> connect_fails env \<longrightarrow>
      (\<exists>r ds'. batchUpdateRequestStatuses env currentDate ds request = (Inr r, ds')
         \<and> set (failed r) \<subseteq> (\<lambda>u. trim (raw_id u)) ` set raw
         \<and> (\<forall>i<length raw. \<not> raises env i \<longrightarrow>
               (case resolve (trim (raw_id (raw ! i))) ds of
                  None \<Rightarrow> trim (raw_id (raw ! i)) \<in> set (failed r)
                | Some d \<Rightarrow> snapshot_after (raw_status (raw ! i)) currentDate d \<in> set (updated r)))))
   \<and> (ids_of request' = Some raw' \<and> raw' \<noteq> [] \<and> list_all id_ok raw' \<and> \<not> connect_fails env' \<longrightarrow>
      (\<exists>r ds'. batchDeleteRequests env' ds request' = (Inr r, ds')
         \<and> set (failed_ids r) \<subseteq> trim_of ` set raw'
         \<and> (\<forall>i<length raw'. resolve (trim_of (raw' ! i)) ds = None \<longrightarrow>
               trim_of (raw' ! i) \<in> set (failed_ids r))
         \<and> (\<forall>i<length raw'. \<not> raises env' i \<and> distinct (map oid ds) \<longrightarrow>
               resolve (trim_of (raw' ! i)) ds' = None)))"
proof (intro conjI impI)
  assume h: "updates_of request = Some raw \<and> raw \<noteq> [] \<and> list_all pair_ok raw \<and> \<not> connect_fails env"
  let ?us = "map validated raw"
  let ?res = "update_loop (raises env) currentDate ?us ds [] []"
  have v: "validateBatchEditStatusRequest request = Inr (Some ?us)"
    using h by (simp add: validateBatch_ok)
  have run: "batchUpdateRequestStatuses env currentDate ds request = (Inr (fst ?res), snd ?res)"
    using v h by (simp add: batchUpdate_validated)
  have sub: "set (failed (fst ?res)) \<subseteq> (\<lambda>u. trim (raw_id u)) ` set raw"
    using update_loop_failed_subset[of "raises env" currentDate ?us ds]
    by (auto simp: validated_def)
  have up: "updated (fst ?res) =
      map (\<lambda>iu. snapshot_after (es_status (snd iu)) currentDate (the (resolve (es_id (snd iu)) ds)))
        (filter (Not \<circ> update_fails (raises env) ds) (enumerate 0 ?us))"
    using update_loop_updated[of "raises env" 0 currentDate ?us ds "[]" "[]"] by simp
  have item: "case resolve (trim (raw_id (raw ! i))) ds of
        None \<Rightarrow> trim (raw_id (raw ! i)) \<in> set (failed (fst ?res))
      | Some d \<Rightarrow> snapshot_after (raw_status (raw ! i)) currentDate d \<in> set (updated (fst ?res))"
    if i: "i < length raw" and nr: "\<not> raises env i" for i
  proof (cases "resolve (trim (raw_id (raw ! i))) ds")
    case None
    with i have "update_fails (raises env) ds (i, ?us ! i)" by (simp add: validated_def)
    moreover from i have "i < length ?us" by simp
    ultimately have "es_id (?us ! i) \<in> set (failed (fst ?res))"
      unfolding update_loop_failed_iff by blast
    with i None show ?thesis by (simp add: validated_def)
  next
    case (Some d)
    with i nr have ok: "\<not> update_fails (raises env) ds (i, ?us ! i)" by (simp add: validated_def)
    from i have "(i, ?us ! i) \<in> set (enumerate 0 ?us)"
      using enumerate_nth_mem[of i ?us] by simp
    with ok have "(i, ?us ! i) \<in> set (filter (Not \<circ> update_fails (raises env) ds) (enumerate 0 ?us))"
      by simp
    then have "(\<lambda>iu. snapshot_after (es_status (snd iu)) currentDate (the (resolve (es_id (snd iu)) ds)))
        (i, ?us ! i) \<in> set (updated (fst ?res))"
      unfolding up set_map by (rule imageI)
    with i Some show ?thesis by (simp add: validated_def)
  qed
  from run sub item
  show "\<exists>r ds'. batchUpdateRequestStatuses env currentDate ds request = (Inr r, ds')
         \<and> set (failed r) \<subseteq> (\<lambda>u. trim (raw_id u)) ` set raw
         \<and> (\<forall>i<length raw. \<not> raises env i \<longrightarrow>
               (case resolve (trim (raw_id (raw ! i))) ds of
                  None \<Rightarrow> trim (raw_id (raw ! i)) \<in> set (failed r)
                | Some d \<Rightarrow> snapshot_after (raw_status (raw ! i)) currentDate d \<in> set (updated r)))"
    by blast
next
  assume h: "ids_of request' = Some raw' \<and> raw' \<noteq> [] \<and> list_all id_ok raw' \<and> \<not> connect_fails env'"
  let ?ids = "map trim_of raw'"
  let ?res = "delete_loop (raises env') ?ids ds 0 []"
  have v: "validateBatchDeleteRequest request' = Inr (Some ?ids)"
    using h by (simp add: validateBatchDelete_ok)
  have run: "batchDeleteRequests env' ds request' = (Inr (fst ?res), snd ?res)"
    using v h by (simp add: batchDelete_validated)
  obtain ys where ys: "failed_ids (fst ?res) = ys" "subseq ys ?ids"
    using delete_loop_failed_subseq[of "raises env'" ?ids ds 0 "[]"] by auto
  have sub: "set (failed_ids (fst ?res)) \<subseteq> trim_of ` set raw'"
  proof
    fix x assume "x \<in> set (failed_ids (fst ?res))"
    with ys have "x \<in> set ys" by simp
    with ys(2) obtain x' where "x' \<in> set ?ids" "x = x'" by (rule list_emb_set)
    then show "x \<in> trim_of ` set raw'" by simp
  qed
  have absent: "trim_of (raw' ! i) \<in> set (failed_ids (fst ?res))"
    if "i < length raw'" "resolve (trim_of (raw' ! i)) ds = None" for i
    using that delete_loop_failed_mem[of i ?ids "raises env'" ds 0 "[]"] by simp
  have gone: "resolve (trim_of (raw' ! i)) (snd ?res) = None"
    if "i < length raw'" "\<not> raises env' i \<and> distinct (map oid ds)" for i
    using that delete_loop_absent_after[of ds i ?ids "raises env'" 0 "[]"] by simp
  from run sub absent gone
  show "\<exists>r ds'. batchDeleteRequests env' ds request' = (Inr r, ds')
         \<and> set (failed_ids r) \<subseteq> trim_of ` set raw'
         \<and> (\<forall>i<length raw'. resolve (trim_of (raw' ! i)) ds = None \<longrightarrow>
               trim_of (raw' ! i) \<in> set (failed_ids r))
         \<and> (\<forall>i<length raw'. \<not> raises env' i \<and> distinct (map oid ds) \<longrightarrow>
               resolve (trim_of (raw' ! i)) ds' = None)"
    by blast
qed

theorem identifiers_are_trimmed_witness:
  "updates_of sample_batch = Some sample_pairs
   \<and> list_all pair_ok sample_pairs
   \<and> \<not> connect_fails no_faults
   \<and> batchUpdateRequestStatuses no_faults 7 sample_store sample_batch
        = (Inr sample_result, sample_store_after)
   \<and> raw_id (pair '' 507f191e810c19729de860ea '' ''completed'') = '' 507f191e810c19729de860ea ''
   \<and> resolve (trim '' 507f191e810c19729de860ea '') sample_store
        = Some (doc ''507f191e810c19729de860ea'' 2 ''pending'')
   \<and> snapshot_after ''completed'' 7 (doc ''507f191e810c19729de860ea'' 2 ''pending'')
        \<in> set (updated sample_result)
   \<and> ids_of delete_padded = Some padded_ids
   \<and> list_all id_ok padded_ids
   \<and> batchDeleteRequests no_faults sample_store delete_padded
        = (Inr \<lparr>deletedCount = 1, failed_ids = [''507f191e810c19729de860eb'']\<rparr>, store_after_delete)"
proof -
  have u: "updates_of sample_batch = Some sample_pairs"
    by (simp add: sample_defs)
  have ok: "list_all pair_ok sample_pairs"
    by (simp add: sample_defs)
  have nf: "\<not> connect_fails no_faults" by (simp add: no_faults_def)
  have ne: "sample_pairs \<noteq> []" "padded_ids \<noteq> []"
    by (simp_all add: sample_pairs_def padded_ids_def)
  have i: "ids_of delete_padded = Some padded_ids"
    by (simp add: delete_defs)
  have iok: "list_all id_ok padded_ids"
    by (simp add: delete_defs)
  have r: "raw_id (pair '' 507f191e810c19729de860ea '' ''completed'') = '' 507f191e810c19729de860ea ''"
    by (simp add: sample_defs)
  have m: "resolve (trim '' 507f191e810c19729de860ea '') sample_store
        = Some (doc ''507f191e810c19729de860ea'' 2 ''pending'')"
    "snapshot_after ''completed'' 7 (doc ''507f191e810c19729de860ea'' 2 ''pending'')
        \<in> set (updated sample_result)"
    by (simp_all add: sample_defs)
  from identifiers_are_trimmed[of sample_batch
      sample_pairs no_faults 7 sample_store delete_padded padded_ids no_faults]
    u ok nf i iok ne
  have "\<exists>r ds'. batchDeleteRequests no_faults sample_store delete_padded = (Inr r, ds')"
    by blast
  with u ok nf i iok r m sample_batch_run sample_delete_padded show ?thesis by simp
qed

section \<open>Trimming\<close>

lemma trim_prefix: "\<exists>zs. dropWhile is_js_whitespace s = trim s @ zs"
proof -
  let ?u = "dropWhile is_js_whitespace s"
  have "?u = rev (takeWhile is_js_whitespace (rev ?u) @ dropWhile is_js_whitespace (rev ?u))"
    by (simp only: takeWhile_dropWhile_id rev_rev_ident)
  then have "?u = trim s @ rev (takeWhile is_js_whitespace (rev ?u))"
    by (simp only: rev_append trim_def)
  then show ?thesis by blast
qed

lemma length_trim_le: "length (trim s) \<le> length s"
proof -
  have "length (trim s) \<le> length (dropWhile is_js_whitespace s)"
    using length_dropWhile_le[of is_js_whitespace "rev (dropWhile is_js_whitespace s)"]
    by (simp add: trim_def)
  also have "\<dots> \<le> length s" by (rule length_dropWhile_le)
  finally show ?thesis .
qed

lemma trim_no_leading: "dropWhile is_js_whitespace (trim s) = trim s"
proof (cases "trim s")
  case Nil
  then show ?thesis by simp
next
  case (Cons c cs)
  obtain zs where zs: "dropWhile is_js_whitespace s = trim s @ zs"
    using trim_prefix by blast
  with Cons have "hd (dropWhile is_js_whitespace s) = c" by simp
  moreover from zs Cons have "dropWhile is_js_whitespace s \<noteq> []" by simp
  ultimately have "\<not> is_js_whitespace c" using hd_dropWhile by metis
  with Cons show ?thesis by simp
qed

lemma trim_trim: "trim (trim s) = trim s"
proof -
  have "rev (trim s) = dropWhile is_js_whitespace (rev (dropWhile is_js_whitespace s))"
    by (simp add: trim_def)
  then have "dropWhile is_js_whitespace (rev (trim s)) = rev (trim s)"
    by simp
  then show ?thesis
    unfolding trim_def[of "trim s"] trim_no_leading by simp
qed

section \<open>Creation\<close>

lemma validateCreate_accepts:
  assumes "get_prop request ''requestorName'' = Inr (JStr name)"
    and "get_prop request ''itemRequested'' = Inr (JStr item)"
    and "3 \<le> length (trim name)" and "length name \<le> 30"
    and "2 \<le> length (trim item)" and "length item \<le> 100"
  shows "validateCreateItemRequest request
           = Inr (Some \<lparr>cr_requestorName = trim name, cr_itemRequested = trim item\<rparr>)"
proof -
  have n: "name \<noteq> []" "trim name \<noteq> []" "3 \<le> length name"
    using assms(3) length_trim_le[of name] by auto
  have i: "item \<noteq> []" "trim item \<noteq> []" "2 \<le> length item"
    using assms(5) length_trim_le[of item] by auto
  from n i assms show ?thesis
    by (simp add: validateCreateItemRequest_def isValidName_def isValidItemRequested_def
        isValidString_def)
qed

lemma schema_valid_new:
  assumes "3 \<le> length (trim name)" and "length name \<le> 30"
    and "2 \<le> length (trim item)" and "length item \<le> 100"
  shows "schema_valid (new_RequestModel new_oid (trim name) (trim item) created edited PENDING)"
proof -
  have "length (trim name) \<le> 30" "length (trim item) \<le> 100"
    using assms(2,4) length_trim_le[of name] length_trim_le[of item] by auto
  moreover have "trim name \<noteq> []" "trim item \<noteq> []"
    using assms(1,3) by auto
  ultimately show ?thesis
    using assms(1,3)
    by (simp add: schema_valid_def new_RequestModel_def trim_trim RequestStatus_values_def)
qed

lemma create_success_shape:
  assumes "createNewRequest env new_oid currentDate ds request = (Inr r, ds')"
  shows "status r = PENDING \<and> requestCreatedDate r = currentDate \<and> lastEditedDate r = Some currentDate
       \<and> item_id r = new_oid
       \<and> (\<exists>d. ds' = ds @ [d] \<and> transform d = r \<and> schema_valid d)"
  using assms
  by (auto simp: createNewRequest_def save_def new_RequestModel_def transform_def
      split: sum.splits option.splits if_splits)

lemma create_success_only_if:
  assumes "createNewRequest env new_oid currentDate ds request = (Inr r, ds')"
  shows "\<exists>name item. get_prop request ''requestorName'' = Inr (JStr name)
      \<and> get_prop request ''itemRequested'' = Inr (JStr item)
      \<and> 3 \<le> length (trim name) \<and> length name \<le> 30
      \<and> 2 \<le> length (trim item) \<and> length item \<le> 100
      \<and> requestorName r = trim name \<and> itemRequested r = trim item"
proof -
  from assms obtain v where v: "validateCreateItemRequest request = Inr (Some v)"
    by (auto simp: createNewRequest_def split: sum.splits option.splits)
  then obtain nv iv where g: "get_prop request ''requestorName'' = Inr nv"
      "get_prop request ''itemRequested'' = Inr iv"
    and ok: "isValidName nv" "isValidItemRequested iv"
    and vd: "v = \<lparr>cr_requestorName = trim_of nv, cr_itemRequested = trim_of iv\<rparr>"
    by (auto simp: validateCreateItemRequest_def split: sum.splits if_splits)
  from ok obtain name item where s: "nv = JStr name" "iv = JStr item"
    and ub: "length name \<le> 30" "length item \<le> 100"
    by (auto simp: isValidName_def isValidItemRequested_def isValidString_def
        split: jsval.splits if_splits)
  from assms v vd s have sv: "schema_valid
      (new_RequestModel new_oid (trim name) (trim item) currentDate (Some currentDate) PENDING)"
    and r: "r = transform
      (new_RequestModel new_oid (trim name) (trim item) currentDate (Some currentDate) PENDING)"
    by (auto simp: createNewRequest_def save_def split: sum.splits if_splits)
  from sv have "3 \<le> length (trim name)" "2 \<le> length (trim item)"
    by (simp_all add: schema_valid_def new_RequestModel_def trim_trim)
  moreover from r have "requestorName r = trim name" "itemRequested r = trim item"
    by (simp_all add: transform_def new_RequestModel_def trim_trim)
  ultimately show ?thesis using g s ub by blast
qed

lemma create_accepted_inserts_pending:
  "(get_prop request ''requestorName'' = Inr (JStr name)
      \<and> get_prop request ''itemRequested'' = Inr (JStr item)
      \<and> 3 \<le> length (trim name) \<and> length name \<le> 30
      \<and> 2 \<le> length (trim item) \<and> length item \<le> 100
      \<and> \<not> connect_fails env \<and> \<not> raises env 0 \<and> findOne new_oid ds = None
    \<longrightarrow> createNewRequest env new_oid currentDate ds request =
          (Inr \<lparr>requestorName = trim name, itemRequested = trim item,
                requestCreatedDate = currentDate, lastEditedDate = Some currentDate,
                status = PENDING, item_id = new_oid\<rparr>,
           ds @ [\<lparr>requestorName = trim name, itemRequested = trim item,
                   requestCreatedDate = currentDate, lastEditedDate = Some currentDate,
                   status = PENDING, oid = new_oid\<rparr>]))
   \<and> (createNewRequest env' new_oid' currentDate' ds0 request' = (Inr r, ds')
    \<longrightarrow> status r = PENDING \<and> lastEditedDate r = Some (requestCreatedDate r)
        \<and> requestCreatedDate r = currentDate'
        \<and> (\<exists>d. ds' = ds0 @ [d] \<and> transform d = r))"
proof (rule conjI; rule impI)
  assume h: "get_prop request ''requestorName'' = Inr (JStr name)
      \<and> get_prop request ''itemRequested'' = Inr (JStr item)
      \<and> 3 \<le> length (trim name) \<and> length name \<le> 30
      \<and> 2 \<le> length (trim item) \<and> length item \<le> 100
      \<and> \<not> connect_fails env \<and> \<not> raises env 0 \<and> findOne new_oid ds = None"
  then have v: "validateCreateItemRequest request
           = Inr (Some \<lparr>cr_requestorName = trim name, cr_itemRequested = trim item\<rparr>)"
    by (simp add: validateCreate_accepts)
  have sv: "schema_valid (new_RequestModel new_oid (trim name) (trim item) currentDate (Some currentDate) PENDING)"
    using h by (simp add: schema_valid_new)
  from h v sv
  show "createNewRequest env new_oid currentDate ds request =
          (Inr \<lparr>requestorName = trim name, itemRequested = trim item,
                requestCreatedDate = currentDate, lastEditedDate = Some currentDate,
                status = PENDING, item_id = new_oid\<rparr>,
           ds @ [\<lparr>requestorName = trim name, itemRequested = trim item,
                   requestCreatedDate = currentDate, lastEditedDate = Some currentDate,
                   status = PENDING, oid = new_oid\<rparr>])"
    by (simp add: createNewRequest_def connectDB_def save_def)
      (simp add: new_RequestModel_def transform_def trim_trim)
next
  assume "createNewRequest env' new_oid' currentDate' ds0 request' = (Inr r, ds')"
  from create_success_shape[OF this]
  show "status r = PENDING \<and> lastEditedDate r = Some (requestCreatedDate r)
        \<and> requestCreatedDate r = currentDate'
        \<and> (\<exists>d. ds' = ds0 @ [d] \<and> transform d = r)"
    by auto
qed

lemmas create_defs =
  eval_defs creation_def createNewRequest_def validateCreateItemRequest_def isValidName_def
  isValidItemRequested_def isValidString_def save_def schema_valid_def new_RequestModel_def
  transform_def findOne_def

text \<open>
  C6 (the code at one input). The name of 30 characters behind one space is a valid
  creation input, its trimmed value having 30 characters, yet the call rejects it and
  inserts nothing: the length bound is compared with the untrimmed string, the defect
  of C5. The same name without the space is inserted and returned with status pending
  and both dates the current date.
\<close>

theorem create_valid_input_not_inserted:
  "trim '' Abcdefghijklmnopqrstuvwxyzabcd'' = ''Abcdefghijklmnopqrstuvwxyzabcd''
   \<and> 3 \<le> length (trim '' Abcdefghijklmnopqrstuvwxyzabcd'')
   \<and> length (trim '' Abcdefghijklmnopqrstuvwxyzabcd'') \<le> 30
   \<and> createNewRequest no_faults ''65a1b2c3d4e5f60718293a4b'' 9 sample_store
        (creation '' Abcdefghijklmnopqrstuvwxyzabcd'' ''Flashlights'')
       = (Inl (InvalidInputError ''created item request''), sample_store)
   \<and> createNewRequest no_faults ''65a1b2c3d4e5f60718293a4b'' 9 sample_store
        (creation ''Abcdefghijklmnopqrstuvwxyzabcd'' ''Flashlights'')
       = (Inr \<lparr>requestorName = ''Abcdefghijklmnopqrstuvwxyzabcd'', itemRequested = ''Flashlights'',
               requestCreatedDate = 9, lastEditedDate = Some 9,
               status = ''pending'', item_id = ''65a1b2c3d4e5f60718293a4b''\<rparr>,
          sample_store @ [\<lparr>requestorName = ''Abcdefghijklmnopqrstuvwxyzabcd'',
               itemRequested = ''Flashlights'',
               requestCreatedDate = 9, lastEditedDate = Some 9,
               status = ''pending'', oid = ''65a1b2c3d4e5f60718293a4b''\<rparr>])"
  by (simp add: create_defs sample_store_def doc_def)

text \<open>
  C5 (the code at two inputs). The length bounds are compared with the untrimmed string:
  a name of 30 characters behind one space is rejected as invalid input although its
  trimmed value has 30 characters; and the name \<open>ab\<close> followed by a space, of 2 characters
  when trimmed, passes the validator and is refused only by the schema on save, with a
  ValidationError that the route handler answers as an unknown error.
\<close>

theorem create_bounds_on_untrimmed_length:
  "length (trim '' Abcdefghijklmnopqrstuvwxyzabcd'') = 30
   \<and> createNewRequest env new_oid currentDate ds (creation '' Abcdefghijklmnopqrstuvwxyzabcd'' ''Flashlights'')
       = (Inl (InvalidInputError ''created item request''), ds)
   \<and> length (trim ''ab '') = 2
   \<and> createNewRequest no_faults new_oid currentDate ds (creation ''ab '' ''Flashlights'')
       = (Inl ValidationError, ds)
   \<and> catch_response ValidationError = UNKNOWN_ERROR"
  by (simp add: create_defs)

section \<open>Single status update of a missing record\<close>

lemmas update_defs =
  eval_defs sample_store_def updateRequestStatus_def validateEditStatusRequest_def isValidStatus_def
  findOne_def findByIdAndUpdate_def castObjectId_def is_hex_digit_def lower_hex_def resolve_def
  doc_def

text \<open>
  C4 (as amended). A well-formed single status update whose trimmed identifier is an
  ObjectId string that no record has (connection up, store call not raising) makes
  \<open>updateRequestStatus\<close> throw an InvalidInputError with the argument \<open>edit item ID\<close> and
  leaves the collection as it was. That is the error kind of a validation failure, which
  carries the argument \<open>edit item request\<close>; the route handler answers both with the
  invalid-input response. A trimmed identifier that is no ObjectId string makes the
  store call throw a CastError, which the route handler answers as an unknown error.
\<close>

theorem update_not_found_is_invalid_input:
  "(pair_ok request \<and> \<not> connect_fails env \<and> \<not> raises env 0
      \<and> castObjectId (trim (raw_id request)) \<noteq> None
      \<and> resolve (trim (raw_id request)) ds = None
    \<longrightarrow> updateRequestStatus env currentDate ds request
          = (Inl (InvalidInputError ''edit item ID''), ds))
   \<and> (pair_ok request \<and> \<not> connect_fails env \<and> castObjectId (trim (raw_id request)) = None
    \<longrightarrow> updateRequestStatus env currentDate ds request = (Inl CastError, ds))
   \<and> (\<not> pair_ok request' \<and> defined request'
    \<longrightarrow> updateRequestStatus env currentDate ds request'
          = (Inl (InvalidInputError ''edit item request''), ds))
   \<and> catch_response (InvalidInputError ''edit item ID'') = INVALID_INPUT
   \<and> catch_response (InvalidInputError ''edit item request'') = INVALID_INPUT
   \<and> catch_response CastError = UNKNOWN_ERROR"
proof (intro conjI)
  show "pair_ok request \<and> \<not> connect_fails env \<and> \<not> raises env 0
      \<and> castObjectId (trim (raw_id request)) \<noteq> None
      \<and> resolve (trim (raw_id request)) ds = None
    \<longrightarrow> updateRequestStatus env currentDate ds request
          = (Inl (InvalidInputError ''edit item ID''), ds)"
  proof (rule impI)
    assume h: "pair_ok request \<and> \<not> connect_fails env \<and> \<not> raises env 0
      \<and> castObjectId (trim (raw_id request)) \<noteq> None
      \<and> resolve (trim (raw_id request)) ds = None"
    then have v: "validateEditStatusRequest request = Inr (Some (validated request))"
      by (simp add: validateEdit_ok)
    from h have bad: "raises env 0 \<or> resolve (es_id (validated request)) ds = None"
      by (simp add: validated_def)
    from h have c: "castObjectId (es_id (validated request)) \<noteq> None"
      and nr: "\<not> raises env 0"
      by (simp_all add: validated_def)
    from findByIdAndUpdate_fails[OF bad, of "es_status (validated request)" currentDate] c nr
    have "findByIdAndUpdate (raises env 0) (es_id (validated request))
        (es_status (validated request)) currentDate ds = Inr (None, ds)"
      by (auto simp: findByIdAndUpdate_def split: option.splits)
    with h v show "updateRequestStatus env currentDate ds request
          = (Inl (InvalidInputError ''edit item ID''), ds)"
      by (simp add: updateRequestStatus_def connectDB_def)
  qed
  show "pair_ok request \<and> \<not> connect_fails env \<and> castObjectId (trim (raw_id request)) = None
    \<longrightarrow> updateRequestStatus env currentDate ds request = (Inl CastError, ds)"
  proof (rule impI)
    assume h: "pair_ok request \<and> \<not> connect_fails env \<and> castObjectId (trim (raw_id request)) = None"
    then have v: "validateEditStatusRequest request = Inr (Some (validated request))"
      by (simp add: validateEdit_ok)
    from h have "findByIdAndUpdate (raises env 0) (es_id (validated request))
        (es_status (validated request)) currentDate ds = Inl CastError"
      by (simp add: findByIdAndUpdate_def validated_def)
    with h v show "updateRequestStatus env currentDate ds request = (Inl CastError, ds)"
      by (simp add: updateRequestStatus_def connectDB_def)
  qed
  show "\<not> pair_ok request' \<and> defined request'
    \<longrightarrow> updateRequestStatus env currentDate ds request'
          = (Inl (InvalidInputError ''edit item request''), ds)"
    by (simp add: updateRequestStatus_def validateEdit_bad)
qed simp_all

theorem update_not_found_is_invalid_input_witness:
  "pair_ok (pair ''507f191e810c19729de860eb'' ''approved'') \<and> \<not> connect_fails no_faults \<and> \<not> raises no_faults 0
   \<and> castObjectId (trim (raw_id (pair ''507f191e810c19729de860eb'' ''approved''))) \<noteq> None
   \<and> resolve (trim (raw_id (pair ''507f191e810c19729de860eb'' ''approved''))) sample_store = None
   \<and> updateRequestStatus no_faults 7 sample_store (pair ''507f191e810c19729de860eb'' ''approved'')
       = (Inl (InvalidInputError ''edit item ID''), sample_store)
   \<and> pair_ok (pair ''nonexistent'' ''approved'')
   \<and> castObjectId (trim (raw_id (pair ''nonexistent'' ''approved''))) = None
   \<and> updateRequestStatus no_faults 7 sample_store (pair ''nonexistent'' ''approved'')
       = (Inl CastError, sample_store)
   \<and> \<not> pair_ok (pair ''   '' ''approved'') \<and> defined (pair ''   '' ''approved'')
   \<and> updateRequestStatus no_faults 7 sample_store (pair ''   '' ''approved'')
       = (Inl (InvalidInputError ''edit item request''), sample_store)"
proof -
  have a: "pair_ok (pair ''507f191e810c19729de860eb'' ''approved'')" "\<not> connect_fails no_faults" "\<not> raises no_faults 0"
    "castObjectId (trim (raw_id (pair ''507f191e810c19729de860eb'' ''approved''))) \<noteq> None"
    "resolve (trim (raw_id (pair ''507f191e810c19729de860eb'' ''approved''))) sample_store = None"
    "\<not> pair_ok (pair ''   '' ''approved'')" "defined (pair ''   '' ''approved'')"
    by (simp_all add: update_defs)
  have b: "pair_ok (pair ''nonexistent'' ''approved'')"
    "castObjectId (trim (raw_id (pair ''nonexistent'' ''approved''))) = None"
    by (simp_all add: update_defs)
  from update_not_found_is_invalid_input[of "pair ''507f191e810c19729de860eb'' ''approved''" no_faults sample_store 7
      "pair ''   '' ''approved''"] a
  have c: "updateRequestStatus no_faults 7 sample_store (pair ''507f191e810c19729de860eb'' ''approved'')
       = (Inl (InvalidInputError ''edit item ID''), sample_store)
     \<and> updateRequestStatus no_faults 7 sample_store (pair ''   '' ''approved'')
       = (Inl (InvalidInputError ''edit item request''), sample_store)"
    by simp
  from update_not_found_is_invalid_input[of "pair ''nonexistent'' ''approved''" no_faults sample_store 7
      "pair ''   '' ''approved''"] a b
  have d: "updateRequestStatus no_faults 7 sample_store (pair ''nonexistent'' ''approved'')
       = (Inl CastError, sample_store)"
    by simp
  from a b c d show ?thesis by simp
qed

text \<open>The not-found error has the kind of the invalid-input error and does not
  depend on the identifier that is missing.\<close>

theorem update_not_found_counterexample:
  "updateRequestStatus no_faults 7 sample_store (pair ''507f191e810c19729de860eb'' ''approved'')
     = (Inl (InvalidInputError ''edit item ID''), sample_store)
   \<and> updateRequestStatus no_faults 7 sample_store (pair ''507f191e810c19729de860ec'' ''approved'')
     = (Inl (InvalidInputError ''edit item ID''), sample_store)
   \<and> updateRequestStatus no_faults 7 sample_store (pair ''   '' ''approved'')
     = (Inl (InvalidInputError ''edit item request''), sample_store)
   \<and> catch_response (InvalidInputError ''edit item ID'')
     = catch_response (InvalidInputError ''edit item request'')"
  by (simp add: update_defs)

section \<open>Paging\<close>

lemma limit_length: "0 < n \<Longrightarrow> length (limit n xs) = min n (length xs)"
  by (simp add: limit_def)

lemma transform_snapshot: "transform = snapshot"
  by (simp add: fun_eq_iff transform_def snapshot_def)

lemmas paging_defs =
  eval_defs paging_store_def getItemRequests_def matches_def limit_def transform_def snapshot_def
  doc_def Let_def

text \<open>
  C7. With the connection up, no store error and a positive page size \<open>P\<close>, the pages of
  \<open>getItemRequests\<close> are the consecutive blocks of \<open>P\<close> of one list: the records matching
  the status filter (all records without one), each once, sorted by creation date
  descending. Page \<open>k \<ge> 1\<close> is the snapshots of the records of that list after the first
  \<open>(k - 1) * P\<close>, at most \<open>P\<close> of them, together with the number \<open>N\<close> of matching records as
  total count; so it has exactly \<open>min P (max 0 (N - (k - 1) * P))\<close> records, and a page
  beyond the range is the empty list, not an error.
\<close>

theorem getItemRequests_page:
  assumes "\<not> connect_fails env" and "\<not> raises env 0" and "\<not> raises env 1"
    and "0 < page_size"
  shows "\<exists>xs. mset xs = mset (filter (matches st) ds)
     \<and> sorted_wrt (\<lambda>a b. requestCreatedDate b \<le> requestCreatedDate a) xs
     \<and> (\<forall>page\<ge>1. \<exists>r. getItemRequests env page_size ds page st = Inr r
           \<and> requests r = map snapshot (take page_size (drop (nat ((page - 1) * int page_size)) xs))
           \<and> totalCount r = length (filter (matches st) ds)
           \<and> int (length (requests r))
               = min (int page_size)
                   (max 0 (int (length (filter (matches st) ds)) - (page - 1) * int page_size))
           \<and> (int (length (filter (matches st) ds)) \<le> (page - 1) * int page_size
                \<longrightarrow> requests r = []))"
proof -
  let ?xs = "sort_key (\<lambda>d. - requestCreatedDate d) (filter (matches st) ds)"
  have ms: "mset ?xs = mset (filter (matches st) ds)" by simp
  have "sorted (map (\<lambda>d. - requestCreatedDate d) ?xs)" by (rule sorted_sort_key)
  then have srt: "sorted_wrt (\<lambda>a b. requestCreatedDate b \<le> requestCreatedDate a) ?xs"
    by (simp add: sorted_wrt_map)
  have pg: "\<exists>r. getItemRequests env page_size ds page st = Inr r
           \<and> requests r = map snapshot (take page_size (drop (nat ((page - 1) * int page_size)) ?xs))
           \<and> totalCount r = length (filter (matches st) ds)
           \<and> int (length (requests r))
               = min (int page_size)
                   (max 0 (int (length (filter (matches st) ds)) - (page - 1) * int page_size))
           \<and> (int (length (filter (matches st) ds)) \<le> (page - 1) * int page_size
                \<longrightarrow> requests r = [])"
    if page: "1 \<le> page" for page
  proof -
    let ?skip = "(page - 1) * int page_size"
    let ?page = "take page_size (drop (nat ?skip) ?xs)"
    let ?r = "\<lparr>requests = map snapshot ?page, totalCount = length (filter (matches st) ds)\<rparr>"
    have skip: "0 \<le> ?skip" using assms(4) page by simp
    have run: "getItemRequests env page_size ds page st = Inr ?r"
      using assms page
      by (simp add: getItemRequests_def connectDB_def Let_def mult_less_0_iff limit_def
          transform_snapshot)
    have len: "length ?page = min page_size (length (filter (matches st) ds) - nat ?skip)"
      by simp
    have cnt: "int (length (requests ?r))
        = min (int page_size) (max 0 (int (length (filter (matches st) ds)) - ?skip))"
      using len skip by (simp add: min_def max_def) linarith
    have empty: "requests ?r = []" if "int (length (filter (matches st) ds)) \<le> ?skip"
      using that cnt by simp
    from run cnt empty show ?thesis
      by (intro exI[of _ ?r]) simp
  qed
  from ms srt pg show ?thesis by blast
qed

theorem getItemRequests_page_witness:
  "\<not> connect_fails no_faults \<and> \<not> raises no_faults 0 \<and> \<not> raises no_faults 1
   \<and> getItemRequests no_faults 2 paging_store 1 None
       = Inr \<lparr>requests = [snapshot (doc ''507f191e810c19729de860ea'' 3 ''approved''),
                          snapshot (doc ''65a1b2c3d4e5f60718293a4b'' 2 ''pending'')],
              totalCount = 3\<rparr>
   \<and> getItemRequests no_faults 2 paging_store 2 None
       = Inr \<lparr>requests = [snapshot (doc ''507f1f77bcf86cd799439011'' 1 ''pending'')], totalCount = 3\<rparr>
   \<and> getItemRequests no_faults 2 paging_store 3 None = Inr \<lparr>requests = [], totalCount = 3\<rparr>
   \<and> getItemRequests no_faults 2 paging_store 1 (Some ''pending'')
       = Inr \<lparr>requests = [snapshot (doc ''65a1b2c3d4e5f60718293a4b'' 2 ''pending''),
                          snapshot (doc ''507f1f77bcf86cd799439011'' 1 ''pending'')],
              totalCount = 2\<rparr>"
proof -
  have e: "\<not> connect_fails no_faults" "\<not> raises no_faults 0" "\<not> raises no_faults 1"
    by (simp_all add: no_faults_def)
  have p: "(0::nat) < 2" by simp
  from getItemRequests_page[OF e p, of None paging_store]
  obtain xs where "\<forall>page\<ge>1. \<exists>r. getItemRequests no_faults 2 paging_store page None = Inr r
      \<and> requests r = map snapshot (take 2 (drop (nat ((page - 1) * int 2)) xs))"
    by blast
  then have "(1::int) \<le> 2 \<longrightarrow> (\<exists>r. getItemRequests no_faults 2 paging_store 2 None = Inr r
      \<and> requests r = map snapshot (take 2 (drop (nat ((2 - 1) * int 2)) xs)))"
    by (rule spec)
  then have "\<exists>r. getItemRequests no_faults 2 paging_store 2 None = Inr r" by auto
  moreover have "getItemRequests no_faults 2 paging_store 1 None
       = Inr \<lparr>requests = [snapshot (doc ''507f191e810c19729de860ea'' 3 ''approved''),
                          snapshot (doc ''65a1b2c3d4e5f60718293a4b'' 2 ''pending'')],
              totalCount = 3\<rparr>"
    by (simp add: paging_defs)
  moreover have "getItemRequests no_faults 2 paging_store 2 None
       = Inr \<lparr>requests = [snapshot (doc ''507f1f77bcf86cd799439011'' 1 ''pending'')], totalCount = 3\<rparr>"
    by (simp add: paging_defs)
  moreover have "getItemRequests no_faults 2 paging_store 3 None = Inr \<lparr>requests = [], totalCount = 3\<rparr>"
    by (simp add: paging_defs)
  moreover have "getItemRequests no_faults 2 paging_store 1 (Some ''pending'')
       = Inr \<lparr>requests = [snapshot (doc ''65a1b2c3d4e5f60718293a4b'' 2 ''pending''),
                          snapshot (doc ''507f1f77bcf86cd799439011'' 1 ''pending'')],
              totalCount = 2\<rparr>"
    by (simp add: paging_defs)
  ultimately show ?thesis using e by simp
qed

end
